theory Spec2Isabelle
  imports Complex_Main "HOL-Library.AList"
begin

section \<open>Python values used by the program\<close>

text \<open>
  The exceptions the modelled code can raise.  \<open>NetworkXError\<close> is raised by
  \<^verbatim>\<open>networkx.Graph.neighbors\<close> for a node that is not in the graph, \<open>KeyError\<close> by a
  subscript on a dict without the key, \<open>ValueError\<close> by \<^verbatim>\<open>int()\<close>, \<^verbatim>\<open>float()\<close> and by
  \<^verbatim>\<open>find_subestacion_node\<close>.
\<close>

datatype error = NetworkXError | KeyError | ValueError

text \<open>
  A Python \<^verbatim>\<open>float\<close> is the real number it stands for, or an infinity (\<open>True\<close> for the
  negative one) or a NaN.  The sign of a zero is not kept.
\<close>

datatype pyfloat = Finite real | Infinity bool | NaN

text \<open>Attribute values stored in the keyword-argument dicts of nodes and edges.\<close>

datatype attr_value = AStr string | AInt int | AFloat pyfloat

text \<open>
  A Python \<^verbatim>\<open>dict\<close> is an association list with distinct keys in insertion order:
  \<^verbatim>\<open>d[k] = v\<close> is \<^const>\<open>AList.update\<close> (an existing key keeps its position, a new key
  goes to the end), \<^verbatim>\<open>d.get(k)\<close> is \<^const>\<open>map_of\<close>, \<^verbatim>\<open>list(d.keys())\<close> is \<open>map fst\<close>.
\<close>

type_synonym attributes = "(string \<times> attr_value) list"

definition dict_update :: "('k \<times> 'v) list \<Rightarrow> ('k \<times> 'v) list \<Rightarrow> ('k \<times> 'v) list" where
  \<comment> \<open>\<^verbatim>\<open>d.update(other)\<close>\<close>
  "dict_update d other = foldl (\<lambda>acc (k, v). AList.update k v acc) d other"

text \<open>
  A Python \<^verbatim>\<open>set\<close> of ints is a list without repetition, in the order in which the set is
  iterated; \<^verbatim>\<open>s.add(x)\<close> leaves a set that holds \<open>x\<close> unchanged.  Python does not specify
  where a new element comes in the iteration, and CPython follows its hash table, not the
  order of insertion; the model puts the new element last.  A state of the manual adapter
  thus fixes an order for each neighbour set, and the traversal theorems below hold for
  every state, hence for every such order.
\<close>

definition set_add :: "int \<Rightarrow> int list \<Rightarrow> int list" where
  "set_add x s = (if x \<in> set s then s else s @ [x])"

section \<open>The breadth-first closure builder (\<^verbatim>\<open>bfs_traversal\<close>)\<close>

text \<open>
  \<^verbatim>\<open>NetworkXAdapter.bfs_traversal\<close> and \<^verbatim>\<open>ManualNetworkAdapter.bfs_traversal\<close> have the same
  body; they differ only in \<^verbatim>\<open>self.get_neighbors\<close>, which is the first argument here.
  A closure entry is the tuple \<open>(ancestor, descendant, depth)\<close>.
\<close>

type_synonym entry = "int \<times> int \<times> int"

record bfs_state =
  closure_entries :: "entry list"
  visited :: "int set"
  queue :: "entry list"
  parent_map :: "int \<rightharpoonup> int option"

text \<open>
  The inner \<^verbatim>\<open>while temp_ancestor in parent_map and parent_map[temp_ancestor] is not None\<close>
  loop.  The value \<open>None\<close> of the model is a walk that never ends.
\<close>

partial_function (option) walk_parent_chain ::
  "(int \<rightharpoonup> int option) \<Rightarrow> int \<Rightarrow> int \<Rightarrow> int \<Rightarrow> entry list \<Rightarrow> entry list option" where
  "walk_parent_chain pm neighbor temp_ancestor temp_depth ce =
     (case pm temp_ancestor of
        Some (Some p) \<Rightarrow>
          walk_parent_chain pm neighbor p (temp_depth + 1) (ce @ [(p, neighbor, temp_depth + 1)])
      | _ \<Rightarrow> Some ce)"

text \<open>The \<^verbatim>\<open>for neighbor in self.get_neighbors(current)\<close> loop.\<close>

fun explore_neighbors :: "int \<Rightarrow> int list \<Rightarrow> bfs_state \<Rightarrow> bfs_state option" where
  "explore_neighbors current [] s = Some s"
| "explore_neighbors current (neighbor # rest) s =
     (if neighbor \<notin> visited s then
        (let pm = (parent_map s)(neighbor \<mapsto> Some current) in
         case walk_parent_chain pm neighbor current 1
                (closure_entries s @ [(current, neighbor, 1)]) of
           None \<Rightarrow> None
         | Some ce \<Rightarrow>
             explore_neighbors current rest
               (s\<lparr>visited := insert neighbor (visited s),
                  parent_map := pm,
                  queue := queue s @ [(current, neighbor, 1)],
                  closure_entries := ce\<rparr>))
      else explore_neighbors current rest s)"

text \<open>The \<^verbatim>\<open>while queue\<close> loop; an exception of \<^verbatim>\<open>get_neighbors\<close> ends the traversal.\<close>

partial_function (option) bfs_loop ::
  "(int \<Rightarrow> error + int list) \<Rightarrow> bfs_state \<Rightarrow> (error + entry list) option" where
  "bfs_loop get_neighbors s =
     (case queue s of
        [] \<Rightarrow> Some (Inr (closure_entries s))
      | (ancestor, current, depth) # q \<Rightarrow>
          (let s1 = s\<lparr>queue := q\<rparr>;
               s2 = (if ancestor = current
                     then s1\<lparr>closure_entries := closure_entries s1 @ [(current, current, 0)]\<rparr>
                     else s1)
           in case get_neighbors current of
                Inl e \<Rightarrow> Some (Inl e)
              | Inr ns \<Rightarrow>
                  (case explore_neighbors current ns s2 of
                     None \<Rightarrow> None
                   | Some s3 \<Rightarrow> bfs_loop get_neighbors s3)))"

declare walk_parent_chain.simps [code]
declare bfs_loop.simps [code]

definition bfs_init :: "int \<Rightarrow> bfs_state" where
  "bfs_init start_node =
     \<lparr>closure_entries = [], visited = {start_node},
      queue = [(start_node, start_node, 0)],
      parent_map = [start_node \<mapsto> None]\<rparr>"

definition bfs_traversal ::
  "(int \<Rightarrow> error + int list) \<Rightarrow> int \<Rightarrow> (error + entry list) option" where
  "bfs_traversal get_neighbors start_node = bfs_loop get_neighbors (bfs_init start_node)"

section \<open>The graph adapters\<close>

subsection \<open>\<^verbatim>\<open>networkx.Graph\<close>\<close>

text \<open>
  The library class behind \<^verbatim>\<open>NetworkXAdapter\<close> is not part of the repository; the four
  methods the adapter calls are modelled after the library: \<^verbatim>\<open>_node\<close> maps a node to its
  attribute dict, \<^verbatim>\<open>_adj\<close> maps a node to the dict of its neighbours (neighbour to edge
  attributes).  \<^verbatim>\<open>add_node\<close> on a known node updates its attribute dict, \<^verbatim>\<open>add_edge\<close>
  creates missing endpoints with empty attributes, \<^verbatim>\<open>neighbors\<close> raises \<open>NetworkXError\<close>
  for a node that is not in the graph, and \<^verbatim>\<open>nodes[n]\<close> raises \<open>KeyError\<close> for one.
  Every graph the library builds has the same keys in \<^verbatim>\<open>_node\<close> and \<^verbatim>\<open>_adj\<close>.
\<close>

record nx_Graph =
  nx_node :: "(int \<times> attributes) list"
  nx_adj :: "(int \<times> (int \<times> attributes) list) list"

definition nx_new :: nx_Graph where
  "nx_new = \<lparr>nx_node = [], nx_adj = []\<rparr>"

definition nx_ensure_node :: "int \<Rightarrow> nx_Graph \<Rightarrow> nx_Graph" where
  "nx_ensure_node n G =
     (if n \<notin> fst ` set (nx_node G)
      then G\<lparr>nx_adj := AList.update n [] (nx_adj G), nx_node := AList.update n [] (nx_node G)\<rparr>
      else G)"

definition nx_add_node :: "int \<Rightarrow> attributes \<Rightarrow> nx_Graph \<Rightarrow> nx_Graph" where
  "nx_add_node n attr G =
     (case map_of (nx_node G) n of
        None \<Rightarrow> G\<lparr>nx_adj := AList.update n [] (nx_adj G),
                  nx_node := AList.update n (dict_update [] attr) (nx_node G)\<rparr>
      | Some d \<Rightarrow> G\<lparr>nx_node := AList.update n (dict_update d attr) (nx_node G)\<rparr>)"

definition nx_row :: "nx_Graph \<Rightarrow> int \<Rightarrow> (int \<times> attributes) list" where
  "nx_row G u = (case map_of (nx_adj G) u of None \<Rightarrow> [] | Some row \<Rightarrow> row)"

definition nx_set_edge :: "int \<Rightarrow> int \<Rightarrow> attributes \<Rightarrow> nx_Graph \<Rightarrow> nx_Graph" where
  \<comment> \<open>\<^verbatim>\<open>self._adj[u][v] = datadict\<close>, on the row that exists\<close>
  "nx_set_edge u v datadict G =
     G\<lparr>nx_adj := map (\<lambda>(k, row). if k = u then (k, AList.update v datadict row) else (k, row))
                      (nx_adj G)\<rparr>"

definition nx_add_edge :: "int \<Rightarrow> int \<Rightarrow> attributes \<Rightarrow> nx_Graph \<Rightarrow> nx_Graph" where
  "nx_add_edge u v attr G =
     (let G1 = nx_ensure_node u G;
          G2 = nx_ensure_node v G1;
          datadict = dict_update (case map_of (nx_row G2 u) v of None \<Rightarrow> [] | Some d \<Rightarrow> d) attr
      in nx_set_edge v u datadict (nx_set_edge u v datadict G2))"

definition nx_nodes :: "nx_Graph \<Rightarrow> int list" where
  "nx_nodes G = map fst (nx_node G)"

definition nx_neighbors :: "nx_Graph \<Rightarrow> int \<Rightarrow> error + int list" where
  "nx_neighbors G n =
     (case map_of (nx_adj G) n of None \<Rightarrow> Inl NetworkXError | Some row \<Rightarrow> Inr (map fst row))"

definition nx_nodes_getitem :: "nx_Graph \<Rightarrow> int \<Rightarrow> error + attributes" where
  "nx_nodes_getitem G n =
     (case map_of (nx_node G) n of None \<Rightarrow> Inl KeyError | Some d \<Rightarrow> Inr d)"

subsection \<open>\<^verbatim>\<open>NetworkXAdapter\<close>\<close>

record NetworkXAdapter =
  graph :: nx_Graph

definition NetworkXAdapter_init :: NetworkXAdapter where
  "NetworkXAdapter_init = \<lparr>graph = nx_new\<rparr>"

definition NetworkXAdapter_add_node :: "NetworkXAdapter \<Rightarrow> int \<Rightarrow> attributes \<Rightarrow> NetworkXAdapter" where
  "NetworkXAdapter_add_node self node_id attrs = self\<lparr>graph := nx_add_node node_id attrs (graph self)\<rparr>"

definition NetworkXAdapter_add_edge ::
  "NetworkXAdapter \<Rightarrow> int \<Rightarrow> int \<Rightarrow> attributes \<Rightarrow> NetworkXAdapter" where
  "NetworkXAdapter_add_edge self node_from node_to attrs =
     self\<lparr>graph := nx_add_edge node_from node_to attrs (graph self)\<rparr>"

definition NetworkXAdapter_get_nodes :: "NetworkXAdapter \<Rightarrow> int list" where
  "NetworkXAdapter_get_nodes self = nx_nodes (graph self)"

definition NetworkXAdapter_get_neighbors :: "NetworkXAdapter \<Rightarrow> int \<Rightarrow> error + int list" where
  "NetworkXAdapter_get_neighbors self node_id = nx_neighbors (graph self) node_id"

definition NetworkXAdapter_get_node_attributes :: "NetworkXAdapter \<Rightarrow> int \<Rightarrow> error + attributes" where
  "NetworkXAdapter_get_node_attributes self node_id = nx_nodes_getitem (graph self) node_id"

definition NetworkXAdapter_bfs_traversal ::
  "NetworkXAdapter \<Rightarrow> int \<Rightarrow> (error + entry list) option" where
  "NetworkXAdapter_bfs_traversal self start_node =
     bfs_traversal (NetworkXAdapter_get_neighbors self) start_node"

subsection \<open>\<^verbatim>\<open>ManualNetworkAdapter\<close>\<close>

record ManualNetworkAdapter =
  nodes :: "(int \<times> attributes) list"
  edges :: "(int \<times> int list) list"

definition ManualNetworkAdapter_init :: ManualNetworkAdapter where
  "ManualNetworkAdapter_init = \<lparr>nodes = [], edges = []\<rparr>"

definition ensure_edges :: "int \<Rightarrow> ManualNetworkAdapter \<Rightarrow> ManualNetworkAdapter" where
  \<comment> \<open>\<^verbatim>\<open>if n not in self.edges: self.edges[n] = set()\<close>\<close>
  "ensure_edges n self =
     (if n \<notin> fst ` set (edges self) then self\<lparr>edges := AList.update n [] (edges self)\<rparr> else self)"

definition edges_add :: "int \<Rightarrow> int \<Rightarrow> ManualNetworkAdapter \<Rightarrow> ManualNetworkAdapter" where
  \<comment> \<open>\<^verbatim>\<open>self.edges[a].add(b)\<close>, on the set that exists\<close>
  "edges_add a b self =
     self\<lparr>edges := map (\<lambda>(k, s). if k = a then (k, set_add b s) else (k, s)) (edges self)\<rparr>"

definition ManualNetworkAdapter_add_node ::
  "ManualNetworkAdapter \<Rightarrow> int \<Rightarrow> attributes \<Rightarrow> ManualNetworkAdapter" where
  "ManualNetworkAdapter_add_node self node_id attrs =
     ensure_edges node_id (self\<lparr>nodes := AList.update node_id attrs (nodes self)\<rparr>)"

definition ManualNetworkAdapter_add_edge ::
  "ManualNetworkAdapter \<Rightarrow> int \<Rightarrow> int \<Rightarrow> attributes \<Rightarrow> ManualNetworkAdapter" where
  "ManualNetworkAdapter_add_edge self node_from node_to attrs =
     edges_add node_to node_from
       (edges_add node_from node_to (ensure_edges node_to (ensure_edges node_from self)))"

definition ManualNetworkAdapter_get_nodes :: "ManualNetworkAdapter \<Rightarrow> int list" where
  "ManualNetworkAdapter_get_nodes self = map fst (nodes self)"

definition ManualNetworkAdapter_get_neighbors :: "ManualNetworkAdapter \<Rightarrow> int \<Rightarrow> int list" where
  "ManualNetworkAdapter_get_neighbors self node_id =
     (case map_of (edges self) node_id of None \<Rightarrow> [] | Some s \<Rightarrow> s)"

definition ManualNetworkAdapter_get_node_attributes ::
  "ManualNetworkAdapter \<Rightarrow> int \<Rightarrow> attributes" where
  "ManualNetworkAdapter_get_node_attributes self node_id =
     (case map_of (nodes self) node_id of None \<Rightarrow> [] | Some d \<Rightarrow> d)"

definition ManualNetworkAdapter_bfs_traversal ::
  "ManualNetworkAdapter \<Rightarrow> int \<Rightarrow> (error + entry list) option" where
  "ManualNetworkAdapter_bfs_traversal self start_node =
     bfs_traversal (\<lambda>n. Inr (ManualNetworkAdapter_get_neighbors self n)) start_node"

section \<open>Entity model (\<^verbatim>\<open>models.py\<close>)\<close>

text \<open>
  The fields \<^verbatim>\<open>x\<close> and \<^verbatim>\<open>y\<close> of \<^verbatim>\<open>Nodo\<close> are named \<open>coord_x\<close> and \<open>coord_y\<close> here.
\<close>

record Nodo =
  id_nodo :: int
  nombre :: string
  tipo :: string
  voltaje_kv :: pyfloat
  coord_x :: pyfloat
  coord_y :: pyfloat

record Segmento =
  id_segmento :: int
  id_circuito :: string
  nodo_inicio :: int
  nodo_fin :: int
  longitud_m :: pyfloat
  tipo_conductor :: int
  capacidad_amp :: int

subsection \<open>The conversions \<^verbatim>\<open>int(s)\<close> and \<^verbatim>\<open>float(s)\<close> of a string\<close>

text \<open>
  Both strip surrounding whitespace and accept an optional sign and decimal digits, where
  single underscores may separate digits; \<^verbatim>\<open>float\<close> accepts a fraction, an exponent and
  the words \<^verbatim>\<open>inf\<close>, \<^verbatim>\<open>infinity\<close> and \<^verbatim>\<open>nan\<close> in any case.  Anything else raises
  \<open>ValueError\<close>.  Strings are ASCII here: digits and spaces of other scripts are not
  modelled.  In an ASCII string the whitespace that \<^verbatim>\<open>int()\<close> and \<^verbatim>\<open>float()\<close> skip is the
  space, tab, line feed, vertical tab, form feed and carriage return.
\<close>

definition is_space :: "char \<Rightarrow> bool" where
  "is_space c \<longleftrightarrow> c \<in> set [CHR '' '', CHR 0x09, CHR 0x0A, CHR 0x0B, CHR 0x0C, CHR 0x0D]"

definition strip :: "string \<Rightarrow> string" where
  "strip s = rev (dropWhile is_space (rev (dropWhile is_space s)))"

definition is_digit :: "char \<Rightarrow> bool" where
  "is_digit c \<longleftrightarrow> c \<in> set ''0123456789''"

definition digit_val :: "char \<Rightarrow> int" where
  "digit_val c = of_char c - 48"

fun digit_tail :: "string \<Rightarrow> string option" where
  "digit_tail [] = Some []"
| "digit_tail (c # cs) =
     (if is_digit c then map_option ((#) c) (digit_tail cs)
      else if c = CHR ''_'' then
        (case cs of
           [] \<Rightarrow> None
         | d # ds \<Rightarrow> if is_digit d then map_option ((#) d) (digit_tail ds) else None)
      else None)"

definition digitpart :: "string \<Rightarrow> string option" where
  \<comment> \<open>the digits of \<^verbatim>\<open>digit (["_"] digit)*\<close>\<close>
  "digitpart s =
     (case s of [] \<Rightarrow> None
      | c # cs \<Rightarrow> if is_digit c then map_option ((#) c) (digit_tail cs) else None)"

definition digits_value :: "string \<Rightarrow> int" where
  "digits_value ds = foldl (\<lambda>n c. 10 * n + digit_val c) 0 ds"

definition split_sign :: "string \<Rightarrow> bool \<times> string" where
  \<comment> \<open>\<open>True\<close> for a leading minus\<close>
  "split_sign s =
     (case s of
        c # cs \<Rightarrow> if c = CHR ''-'' then (True, cs) else if c = CHR ''+'' then (False, cs)
                  else (False, s)
      | [] \<Rightarrow> (False, s))"

text \<open>
  CPython (3.11, and the security releases of earlier versions) refuses to convert a text
  of more than \<^verbatim>\<open>sys.get_int_max_str_digits()\<close> digits, 4300 unless the interpreter is
  configured otherwise; underscores do not count.
\<close>

definition int_max_str_digits :: nat where
  "int_max_str_digits = 4300"

definition py_int :: "string \<Rightarrow> error + int" where
  "py_int s =
     (let (neg, body) = split_sign (strip s) in
      case digitpart body of
        None \<Rightarrow> Inl ValueError
      | Some ds \<Rightarrow>
          if int_max_str_digits < length ds then Inl ValueError
          else Inr (if neg then - digits_value ds else digits_value ds))"

text \<open>
  \<^verbatim>\<open>float(s)\<close> is the binary64 number nearest to the decimal that \<open>s\<close> writes, the one with
  an even significand when two are equally near, and an infinity when that decimal is too
  large.  \<open>binary64 neg p q\<close> rounds the fraction \<open>p / q\<close>, for \<open>0 \<le> p\<close> and \<open>0 < q\<close>: with
  \<open>2 ^ e \<le> p / q < 2 ^ (e + 1)\<close> the result is a multiple of \<open>2 ^ (e - 52)\<close>, and of
  \<open>2 ^ (- 1074)\<close> below the normal range.
\<close>

function bit_length :: "int \<Rightarrow> int" where
  "bit_length n = (if n \<le> 0 then 0 else 1 + bit_length (n div 2))"
  by pat_completeness auto
termination
  by (relation "measure nat") auto

definition round_half_even :: "int \<Rightarrow> int \<Rightarrow> int" where
  "round_half_even p q =
     (let d = p div q; r = p mod q
      in if 2 * r < q then d else if q < 2 * r then d + 1 else if even d then d else d + 1)"

definition binary64 :: "bool \<Rightarrow> int \<Rightarrow> int \<Rightarrow> pyfloat" where
  "binary64 neg p q =
     (if p = 0 then Finite 0
      else
        let k = bit_length p - bit_length q;
            e = (if (if 0 \<le> k then q * 2 ^ nat k \<le> p else q \<le> p * 2 ^ nat (- k)) then k
                 else k - 1);
            u = max e (- 1022) - 52;
            n = (if 0 \<le> u then round_half_even p (q * 2 ^ nat u)
                 else round_half_even (p * 2 ^ nat (- u)) q)
        in if 0 \<le> u \<and> 2 ^ 1024 \<le> n * 2 ^ nat u then Infinity neg
           else Finite ((if neg then - 1 else 1) *
                        (if 0 \<le> u then of_int (n * 2 ^ nat u) else of_int n / 2 ^ nat (- u))))"

definition to_lower :: "char \<Rightarrow> char" where
  "to_lower c =
     (if c \<in> set ''ABCDEFGHIJKLMNOPQRSTUVWXYZ'' then char_of (of_char c + (32::nat)) else c)"

definition optional_digits :: "string \<Rightarrow> string option" where
  "optional_digits s = (if s = [] then Some [] else digitpart s)"

definition py_float_exponent :: "string \<Rightarrow> int option" where
  \<comment> \<open>what follows the mantissa: nothing, or \<^verbatim>\<open>e\<close> with a signed digit part\<close>
  "py_float_exponent e =
     (case e of
        [] \<Rightarrow> Some 0
      | c # cs \<Rightarrow>
          (let (neg, body) = split_sign cs in
           case digitpart body of
             None \<Rightarrow> None
           | Some ds \<Rightarrow> Some (if neg then - digits_value ds else digits_value ds)))"

definition py_float_mantissa :: "string \<Rightarrow> (int \<times> int) option" where
  \<comment> \<open>the digits of the mantissa as one number, and how many of them follow the point\<close>
  "py_float_mantissa m =
     (let ip = takeWhile (\<lambda>c. c \<noteq> CHR ''.'') m;
          fp = dropWhile (\<lambda>c. c \<noteq> CHR ''.'') m
      in if fp = [] then map_option (\<lambda>ds. (digits_value ds, 0)) (digitpart ip)
         else if ip = [] \<and> tl fp = [] then None
         else (case (optional_digits ip, optional_digits (tl fp)) of
                 (Some ids, Some fds) \<Rightarrow> Some (digits_value (ids @ fds), int (length fds))
               | _ \<Rightarrow> None))"

definition py_float :: "string \<Rightarrow> error + pyfloat" where
  "py_float s =
     (let (neg, body) = split_sign (strip s);
          low = map to_lower body
      in if low = ''inf'' \<or> low = ''infinity'' then Inr (Infinity neg)
         else if low = ''nan'' then Inr NaN
         else
           (let m = takeWhile (\<lambda>c. c \<noteq> CHR ''e'') low;
                e = dropWhile (\<lambda>c. c \<noteq> CHR ''e'') low
            in case (py_float_mantissa m, py_float_exponent e) of
                 (Some (d, f), Some x) \<Rightarrow>
                   Inr (if f \<le> x then binary64 neg (d * 10 ^ nat (x - f)) 1
                        else binary64 neg d (10 ^ nat (f - x)))
               | _ \<Rightarrow> Inl ValueError))"

subsection \<open>\<^verbatim>\<open>from_csv_row\<close>\<close>

text \<open>
  A CSV row is a dict from column name to text.  The keyword arguments are evaluated in
  the order written; the first subscript or conversion that raises ends the call.
\<close>

type_synonym csv_row = "(string \<times> string) list"

definition getitem :: "csv_row \<Rightarrow> string \<Rightarrow> error + string" where
  "getitem row k = (case map_of row k of None \<Rightarrow> Inl KeyError | Some v \<Rightarrow> Inr v)"

definition ebind :: "error + 'a \<Rightarrow> ('a \<Rightarrow> error + 'b) \<Rightarrow> error + 'b" where
  "ebind m f = (case m of Inl e \<Rightarrow> Inl e | Inr v \<Rightarrow> f v)"

definition Nodo_from_csv_row :: "csv_row \<Rightarrow> error + Nodo" where
  "Nodo_from_csv_row row =
     ebind (ebind (getitem row ''id_nodo'') py_int) (\<lambda>a.
     ebind (getitem row ''nombre'') (\<lambda>b.
     ebind (getitem row ''tipo'') (\<lambda>c.
     ebind (ebind (getitem row ''voltaje_kv'') py_float) (\<lambda>d.
     ebind (ebind (getitem row ''x'') py_float) (\<lambda>e.
     ebind (ebind (getitem row ''y'') py_float) (\<lambda>f.
     Inr \<lparr>id_nodo = a, nombre = b, tipo = c, voltaje_kv = d, coord_x = e, coord_y = f\<rparr>))))))"

definition Segmento_from_csv_row :: "csv_row \<Rightarrow> error + Segmento" where
  "Segmento_from_csv_row row =
     ebind (ebind (getitem row ''id_segmento'') py_int) (\<lambda>a.
     ebind (getitem row ''id_circuito'') (\<lambda>b.
     ebind (ebind (getitem row ''nodo_inicio'') py_int) (\<lambda>c.
     ebind (ebind (getitem row ''nodo_fin'') py_int) (\<lambda>d.
     ebind (ebind (getitem row ''longitud_m'') py_float) (\<lambda>e.
     ebind (ebind (getitem row ''tipo_conductor'') py_int) (\<lambda>f.
     ebind (ebind (getitem row ''capacidad_amp'') py_int) (\<lambda>g.
     Inr \<lparr>id_segmento = a, id_circuito = b, nodo_inicio = c, nodo_fin = d,
          longitud_m = e, tipo_conductor = f, capacidad_amp = g\<rparr>)))))))"

section \<open>\<^verbatim>\<open>NetworkBuilder\<close> and the traversal of \<^verbatim>\<open>main\<close>\<close>

datatype NetworkInterface = NX NetworkXAdapter | Manual ManualNetworkAdapter

definition add_node :: "NetworkInterface \<Rightarrow> int \<Rightarrow> attributes \<Rightarrow> NetworkInterface" where
  "add_node net node_id attrs =
     (case net of NX a \<Rightarrow> NX (NetworkXAdapter_add_node a node_id attrs)
      | Manual m \<Rightarrow> Manual (ManualNetworkAdapter_add_node m node_id attrs))"

definition add_edge :: "NetworkInterface \<Rightarrow> int \<Rightarrow> int \<Rightarrow> attributes \<Rightarrow> NetworkInterface" where
  "add_edge net node_from node_to attrs =
     (case net of NX a \<Rightarrow> NX (NetworkXAdapter_add_edge a node_from node_to attrs)
      | Manual m \<Rightarrow> Manual (ManualNetworkAdapter_add_edge m node_from node_to attrs))"

definition get_nodes :: "NetworkInterface \<Rightarrow> int list" where
  "get_nodes net =
     (case net of NX a \<Rightarrow> NetworkXAdapter_get_nodes a | Manual m \<Rightarrow> ManualNetworkAdapter_get_nodes m)"

definition get_neighbors :: "NetworkInterface \<Rightarrow> int \<Rightarrow> error + int list" where
  "get_neighbors net node_id =
     (case net of NX a \<Rightarrow> NetworkXAdapter_get_neighbors a node_id
      | Manual m \<Rightarrow> Inr (ManualNetworkAdapter_get_neighbors m node_id))"

definition get_node_attributes :: "NetworkInterface \<Rightarrow> int \<Rightarrow> error + attributes" where
  "get_node_attributes net node_id =
     (case net of NX a \<Rightarrow> NetworkXAdapter_get_node_attributes a node_id
      | Manual m \<Rightarrow> Inr (ManualNetworkAdapter_get_node_attributes m node_id))"

definition network_bfs_traversal :: "NetworkInterface \<Rightarrow> int \<Rightarrow> (error + entry list) option" where
  "network_bfs_traversal net start_node =
     (case net of NX a \<Rightarrow> NetworkXAdapter_bfs_traversal a start_node
      | Manual m \<Rightarrow> ManualNetworkAdapter_bfs_traversal m start_node)"

record NetworkBuilder =
  network :: NetworkInterface

definition NetworkBuilder_init :: "bool \<Rightarrow> NetworkBuilder" where
  "NetworkBuilder_init use_networkx =
     \<lparr>network = (if use_networkx then NX NetworkXAdapter_init else Manual ManualNetworkAdapter_init)\<rparr>"

definition nodo_attributes :: "Nodo \<Rightarrow> attributes" where
  "nodo_attributes nodo =
     [(''nombre'', AStr (nombre nodo)), (''tipo'', AStr (tipo nodo)),
      (''voltaje_kv'', AFloat (voltaje_kv nodo)), (''x'', AFloat (coord_x nodo)),
      (''y'', AFloat (coord_y nodo))]"

definition segmento_attributes :: "Segmento \<Rightarrow> attributes" where
  "segmento_attributes segmento =
     [(''id_segmento'', AInt (id_segmento segmento)), (''id_circuito'', AStr (id_circuito segmento)),
      (''longitud_m'', AFloat (longitud_m segmento)),
      (''tipo_conductor'', AInt (tipo_conductor segmento)),
      (''capacidad_amp'', AInt (capacidad_amp segmento))]"

definition build_network :: "NetworkBuilder \<Rightarrow> Nodo list \<Rightarrow> Segmento list \<Rightarrow> NetworkBuilder" where
  "build_network self nodos segmentos =
     self\<lparr>network :=
       foldl (\<lambda>net segmento.
                add_edge net (nodo_inicio segmento) (nodo_fin segmento) (segmento_attributes segmento))
         (foldl (\<lambda>net nodo. add_node net (id_nodo nodo) (nodo_attributes nodo)) (network self) nodos)
         segmentos\<rparr>"

definition get_network :: "NetworkBuilder \<Rightarrow> NetworkInterface" where
  "get_network self = network self"

fun find_subestacion_loop :: "NetworkInterface \<Rightarrow> int list \<Rightarrow> error + int" where
  "find_subestacion_loop net [] = Inl ValueError"
| "find_subestacion_loop net (node_id # rest) =
     (case get_node_attributes net node_id of
        Inl e \<Rightarrow> Inl e
      | Inr attrs \<Rightarrow>
          if map_of attrs ''tipo'' = Some (AStr ''Subestacion'') then Inr node_id
          else find_subestacion_loop net rest)"

definition find_subestacion_node :: "NetworkBuilder \<Rightarrow> error + int" where
  "find_subestacion_node self = find_subestacion_loop (network self) (get_nodes (network self))"

text \<open>
  Step 3 of \<^verbatim>\<open>main\<close>: the loop over \<^verbatim>\<open>network.get_nodes()\<close> with \<^verbatim>\<open>all_closure_entries\<close> and
  \<^verbatim>\<open>visited_global\<close>.  An exception ends the run (\<^verbatim>\<open>sys.exit(1)\<close>).
\<close>

definition mark_visited :: "int set \<Rightarrow> entry list \<Rightarrow> int set" where
  "mark_visited visited_global closure =
     foldl (\<lambda>vg (ancestor, descendant, depth). insert descendant (insert ancestor vg))
       visited_global closure"

fun traverse_components ::
  "NetworkInterface \<Rightarrow> int list \<Rightarrow> entry list \<Rightarrow> int set \<Rightarrow> (error + entry list) option" where
  "traverse_components net [] all_closure_entries visited_global = Some (Inr all_closure_entries)"
| "traverse_components net (start_node # rest) all_closure_entries visited_global =
     (if start_node \<notin> visited_global then
        (case network_bfs_traversal net start_node of
           None \<Rightarrow> None
         | Some (Inl e) \<Rightarrow> Some (Inl e)
         | Some (Inr closure) \<Rightarrow>
             traverse_components net rest (all_closure_entries @ closure)
               (mark_visited visited_global closure))
      else traverse_components net rest all_closure_entries visited_global)"

definition main_closure :: "Nodo list \<Rightarrow> Segmento list \<Rightarrow> (error + entry list) option" where
  "main_closure nodos segmentos =
     (let builder = build_network (NetworkBuilder_init True) nodos segmentos;
          net = get_network builder
      in traverse_components net (get_nodes net) [] {})"

section \<open>Example networks\<close>

text \<open>
  Small networks built with the adapters' own methods: a chain 1-2-3, a star with centre 1
  and a square 1-2-4-3-1, the last two each with the edges at node 1 added in both orders.
\<close>

definition chain_nx :: NetworkXAdapter where
  "chain_nx = NetworkXAdapter_add_edge (NetworkXAdapter_add_edge NetworkXAdapter_init 1 2 []) 2 3 []"

definition star_a :: NetworkXAdapter where
  "star_a = NetworkXAdapter_add_edge (NetworkXAdapter_add_edge NetworkXAdapter_init 1 2 []) 1 3 []"

definition star_b :: NetworkXAdapter where
  "star_b = NetworkXAdapter_add_edge (NetworkXAdapter_add_edge NetworkXAdapter_init 1 3 []) 1 2 []"

definition square_a :: NetworkXAdapter where
  "square_a =
     NetworkXAdapter_add_edge (NetworkXAdapter_add_edge (NetworkXAdapter_add_edge
       (NetworkXAdapter_add_edge NetworkXAdapter_init 1 2 []) 1 3 []) 2 4 []) 3 4 []"

definition square_b :: NetworkXAdapter where
  "square_b =
     NetworkXAdapter_add_edge (NetworkXAdapter_add_edge (NetworkXAdapter_add_edge
       (NetworkXAdapter_add_edge NetworkXAdapter_init 1 3 []) 1 2 []) 2 4 []) 3 4 []"

text \<open>Example entities, CSV rows and adapter states.\<close>

definition example_nodo :: "int \<Rightarrow> string \<Rightarrow> Nodo" where
  "example_nodo i t =
     \<lparr>id_nodo = i, nombre = ''N'', tipo = t, voltaje_kv = Finite 13.5,
      coord_x = Finite 0, coord_y = Finite 0\<rparr>"

definition example_segmento :: "int \<Rightarrow> int \<Rightarrow> int \<Rightarrow> Segmento" where
  "example_segmento i a b =
     \<lparr>id_segmento = i, id_circuito = ''C1'', nodo_inicio = a, nodo_fin = b,
      longitud_m = Finite 100, tipo_conductor = 1, capacidad_amp = 200\<rparr>"

definition chain4_nodos :: "Nodo list" where
  "chain4_nodos = [example_nodo 1 ''Subestacion'', example_nodo 2 ''POSTE EN H'',
                   example_nodo 3 ''POSTE SENCILLO'', example_nodo 4 ''POSTE EN H'']"

definition chain4_segmentos :: "Segmento list" where
  "chain4_segmentos = [example_segmento 1 1 2, example_segmento 2 2 3, example_segmento 3 3 4]"

definition negative_row :: csv_row where
  "negative_row =
     [(''id_segmento'', ''1''), (''id_circuito'', ''C1''), (''nodo_inicio'', ''1''),
      (''nodo_fin'', ''2''), (''longitud_m'', ''-100.5''), (''tipo_conductor'', ''1''),
      (''capacidad_amp'', ''-5'')]"

definition malformed_row :: csv_row where
  "malformed_row =
     [(''id_segmento'', ''1''), (''id_circuito'', ''C1''), (''nodo_inicio'', ''1''),
      (''nodo_fin'', ''2''), (''longitud_m'', ''100.5''), (''tipo_conductor'', ''1''),
      (''capacidad_amp'', ''abc'')]"

definition malformed_nodo_row :: csv_row where
  "malformed_nodo_row =
     [(''id_nodo'', ''7''), (''nombre'', ''N7''), (''tipo'', ''Subestacion''),
      (''voltaje_kv'', ''34.5''), (''x'', ''abc''), (''y'', ''2.0'')]"

definition manual_example :: ManualNetworkAdapter where
  "manual_example =
     ManualNetworkAdapter_add_edge
       (ManualNetworkAdapter_add_node
          (ManualNetworkAdapter_add_node ManualNetworkAdapter_init 1 [(''tipo'', AStr ''POSTE'')])
          2 [(''tipo'', AStr ''POSTE'')])
       1 2 []"

definition nx_example :: NetworkXAdapter where
  "nx_example =
     NetworkXAdapter_add_edge
       (NetworkXAdapter_add_node
          (NetworkXAdapter_add_node NetworkXAdapter_init 1
             [(''nombre'', AStr ''N1''), (''tipo'', AStr ''POSTE'')])
          2 [(''tipo'', AStr ''POSTE'')])
       1 2 []"

section \<open>Graph notions used by the statements\<close>

text \<open>
  The graph a traversal sees is given by \<^verbatim>\<open>get_neighbors\<close>: \<open>adjacency\<close> is the list it
  returns (empty where it raises), \<open>edge_rel\<close> the edges \<open>(u, v)\<close> with \<open>v\<close> a neighbour of
  \<open>u\<close>.  \<open>(u, v) \<in> E ^^ n\<close> is a walk of \<open>n\<close> edges from \<open>u\<close> to \<open>v\<close>, \<open>hops E u v\<close> the least
  such \<open>n\<close>, and \<open>E\<^sup>* `` {r}\<close> the set of nodes reachable from \<open>r\<close>.
\<close>

definition adjacency :: "(int \<Rightarrow> error + int list) \<Rightarrow> int \<Rightarrow> int list" where
  "adjacency nb n = (case nb n of Inl e \<Rightarrow> [] | Inr ns \<Rightarrow> ns)"

definition edge_rel :: "(int \<Rightarrow> error + int list) \<Rightarrow> (int \<times> int) set" where
  "edge_rel nb = {(u, v). v \<in> set (adjacency nb u)}"

definition hops :: "(int \<times> int) set \<Rightarrow> int \<Rightarrow> int \<Rightarrow> nat" where
  "hops E u v = (LEAST n. (u, v) \<in> E ^^ n)"

text \<open>
  Invariants of the traversal.  \<open>tree_inv\<close>: the visited nodes are reachable, and
  \<^verbatim>\<open>parent_map\<close> sends each of them but the root to a visited neighbour one hop nearer
  to the root.
\<close>

definition tree_inv :: "(int \<times> int) set \<Rightarrow> int \<Rightarrow> int set \<Rightarrow> (int \<rightharpoonup> int option) \<Rightarrow> bool" where
  "tree_inv E r V pm \<longleftrightarrow>
     r \<in> V \<and> V \<subseteq> E\<^sup>* `` {r} \<and> pm r = Some None \<and>
     (\<forall>v\<in>V. v \<noteq> r \<longrightarrow>
        (\<exists>p. pm v = Some (Some p) \<and> p \<in> V \<and> (p, v) \<in> E \<and> hops E r v = Suc (hops E r p)))"

text \<open>What the walk up the parent chain from \<open>t\<close> appends for a new node \<open>n\<close>.\<close>

definition chain_ok :: "(int \<times> int) set \<Rightarrow> int \<Rightarrow> int set \<Rightarrow> int \<Rightarrow> int \<Rightarrow> int \<Rightarrow> entry list \<Rightarrow> bool" where
  "chain_ok E r V n t td xs \<longleftrightarrow>
     (\<forall>a v k. (a, v, k) \<in> set xs \<longrightarrow> v = n \<and> a \<in> V \<and> td < k \<and> (a, t) \<in> E ^^ nat (k - td) \<and>
         hops E r t = hops E r a + nat (k - td)) \<and>
     distinct (map fst xs) \<and>
     (\<forall>j. 1 \<le> j \<and> j \<le> hops E r t \<longrightarrow> (\<exists>a. (a, n, td + int j) \<in> set xs))"

text \<open>
  \<open>front_inv\<close>: the queue holds distinct visited nodes in order of their distance from
  the root, at most one level apart; every node already expanded has all its neighbours
  visited, the current node \<open>c\<close> all but those in \<open>X\<close>; every node nearer to the root
  than \<open>c\<close> has been expanded.
\<close>

definition front_inv ::
  "(int \<times> int) set \<Rightarrow> int \<Rightarrow> int \<Rightarrow> int set \<Rightarrow> int set \<Rightarrow> int list \<Rightarrow> bool" where
  "front_inv E r c X V qn \<longleftrightarrow>
     c \<in> V \<and> set qn \<subseteq> V \<and> distinct (c # qn) \<and> sorted (map (hops E r) qn) \<and>
     (\<forall>v\<in>set qn. hops E r c \<le> hops E r v \<and> hops E r v \<le> Suc (hops E r c)) \<and>
     (\<forall>u\<in>V - set qn - {c}. E `` {u} \<subseteq> V) \<and> E `` {c} \<subseteq> V \<union> X \<and>
     (\<forall>w\<in>E\<^sup>* `` {r}. hops E r w < hops E r c \<longrightarrow> w \<in> V - set qn - {c})"

text \<open>
  \<open>entries_inv\<close>: the entries are the self-entry of the root and, for every visited node
  and every \<open>j\<close> from 1 to its distance from the root, one entry of depth \<open>j\<close> whose
  ancestor lies \<open>j\<close> edges above it on a shortest path from the root; no pair occurs twice.
\<close>

definition entries_inv :: "(int \<times> int) set \<Rightarrow> int \<Rightarrow> int set \<Rightarrow> entry list \<Rightarrow> bool" where
  "entries_inv E r V ce \<longleftrightarrow>
     (r, r, 0) \<in> set ce \<and>
     (\<forall>a v k. (a, v, k) \<in> set ce \<longrightarrow> (a, v, k) = (r, r, 0) \<or>
         (1 \<le> k \<and> a \<in> V \<and> v \<in> V \<and> (a, v) \<in> E ^^ nat k \<and> hops E r v = hops E r a + nat k)) \<and>
     distinct (map (\<lambda>e. (fst e, fst (snd e))) ce) \<and>
     (\<forall>v\<in>V. v \<noteq> r \<longrightarrow> (\<forall>j. 1 \<le> j \<and> j \<le> hops E r v \<longrightarrow> (\<exists>a. (a, v, int j) \<in> set ce)))"

definition qnodes :: "entry list \<Rightarrow> int list" where
  "qnodes q = map (\<lambda>e. fst (snd e)) q"

definition bfs_inv :: "(int \<times> int) set \<Rightarrow> int \<Rightarrow> int \<Rightarrow> int set \<Rightarrow> bfs_state \<Rightarrow> bool" where
  "bfs_inv E r c X s \<longleftrightarrow>
     tree_inv E r (visited s) (parent_map s) \<and>
     front_inv E r c X (visited s) (qnodes (queue s)) \<and>
     entries_inv E r (visited s) (closure_entries s) \<and>
     (\<forall>a v k. (a, v, k) \<in> set (queue s) \<longrightarrow> a \<noteq> v)"

text \<open>
  \<open>min_edges E a d k\<close>: the minimum number of edges on a walk from \<open>a\<close> to \<open>d\<close> is \<open>k\<close>.
\<close>

definition min_edges :: "(int \<times> int) set \<Rightarrow> int \<Rightarrow> int \<Rightarrow> int \<Rightarrow> bool" where
  "min_edges E a d k \<longleftrightarrow> 0 \<le> k \<and> (a, d) \<in> E ^^ nat k \<and> (\<forall>m. (a, d) \<in> E ^^ m \<longrightarrow> nat k \<le> m)"

text \<open>The edges of the graph each adapter holds, as its \<^verbatim>\<open>get_neighbors\<close> shows them.\<close>

definition Manual_edges :: "ManualNetworkAdapter \<Rightarrow> (int \<times> int) set" where
  "Manual_edges m = edge_rel (\<lambda>n. Inr (ManualNetworkAdapter_get_neighbors m n))"

definition NX_edges :: "NetworkXAdapter \<Rightarrow> (int \<times> int) set" where
  "NX_edges x = edge_rel (NetworkXAdapter_get_neighbors x)"

text \<open>
  A well-formed \<^verbatim>\<open>networkx\<close> graph: \<^verbatim>\<open>_node\<close> and \<^verbatim>\<open>_adj\<close> have the same keys, and every
  neighbour in a row of \<^verbatim>\<open>_adj\<close> is a key.  The empty graph is well formed and
  \<^verbatim>\<open>add_node\<close> and \<^verbatim>\<open>add_edge\<close> keep a graph so.
\<close>

definition nx_ok :: "nx_Graph \<Rightarrow> bool" where
  "nx_ok G \<longleftrightarrow>
     fst ` set (nx_node G) = fst ` set (nx_adj G) \<and>
     (\<forall>u row v. map_of (nx_adj G) u = Some row \<longrightarrow> v \<in> fst ` set row \<longrightarrow>
        v \<in> fst ` set (nx_adj G))"

text \<open>A network whose \<^verbatim>\<open>networkx\<close> graph, if it has one, is well formed.\<close>

definition net_ok :: "NetworkInterface \<Rightarrow> bool" where
  "net_ok net = (case net of NX x \<Rightarrow> nx_ok (graph x) | Manual m \<Rightarrow> True)"

text \<open>
  \<open>unique_parent E r\<close>: no node has two neighbours that are both one hop nearer to \<open>r\<close>
  than it is.  Every tree has this property from each of its nodes.
\<close>

definition unique_parent :: "(int \<times> int) set \<Rightarrow> int \<Rightarrow> bool" where
  "unique_parent E r \<longleftrightarrow>
     (\<forall>v p q. (r, p) \<in> E\<^sup>* \<and> (r, q) \<in> E\<^sup>* \<and> (p, v) \<in> E \<and> (q, v) \<in> E \<and>
        hops E r v = Suc (hops E r p) \<and> hops E r v = Suc (hops E r q) \<longrightarrow> p = q)"

text \<open>
  \<open>walk E xs\<close>: the nodes \<open>xs\<close> follow one another along edges.  \<open>unique_paths E r\<close>: no two
  different simple paths from \<open>r\<close> end in the same node, which is so in every tree and
  forest.
\<close>

fun walk :: "(int \<times> int) set \<Rightarrow> int list \<Rightarrow> bool" where
  "walk E [] = False"
| "walk E [x] = True"
| "walk E (x # y # zs) = ((x, y) \<in> E \<and> walk E (y # zs))"

definition unique_paths :: "(int \<times> int) set \<Rightarrow> int \<Rightarrow> bool" where
  "unique_paths E r \<longleftrightarrow>
     (\<forall>xs ys. walk E xs \<and> walk E ys \<and> distinct xs \<and> distinct ys \<and> hd xs = r \<and> hd ys = r \<and>
        last xs = last ys \<longrightarrow> xs = ys)"

section \<open>Shortest walks\<close>

lemma hops_le: "(u, v) \<in> E ^^ n \<Longrightarrow> hops E u v \<le> n"
  by (simp add: hops_def Least_le)

lemma hops_path: "(u, v) \<in> E\<^sup>* \<Longrightarrow> (u, v) \<in> E ^^ hops E u v"
  unfolding hops_def by (rule LeastI_ex) (simp add: rtrancl_power)

lemma hops_self: "hops E u u = 0"
  using hops_le [where u = u and v = u and E = E and n = 0] by simp

lemma hops_zero: "(u, v) \<in> E\<^sup>* \<Longrightarrow> hops E u v = 0 \<Longrightarrow> v = u"
  using hops_path [of u v E] by simp

lemma hops_triangle: "(r, a) \<in> E\<^sup>* \<Longrightarrow> (a, v) \<in> E ^^ m \<Longrightarrow> hops E r v \<le> hops E r a + m"
proof -
  assume ra: "(r, a) \<in> E\<^sup>*" and av: "(a, v) \<in> E ^^ m"
  from ra have "(r, a) \<in> E ^^ hops E r a" by (rule hops_path)
  with av have "(r, v) \<in> E ^^ (hops E r a + m)"
    by (auto simp: relpow_add)
  then show ?thesis by (rule hops_le)
qed

lemma hops_step: "(u, v) \<in> E\<^sup>* \<Longrightarrow> (v, w) \<in> E \<Longrightarrow> hops E u w \<le> Suc (hops E u v)"
  using hops_triangle [of u v E w 1] by simp

lemma hops_pred:
  assumes "(u, v) \<in> E\<^sup>*" and "v \<noteq> u"
  shows "\<exists>w. (u, w) \<in> E\<^sup>* \<and> (w, v) \<in> E \<and> hops E u v = Suc (hops E u w)"
proof -
  from assms have "hops E u v \<noteq> 0" using hops_zero by blast
  then obtain m where m: "hops E u v = Suc m" by (cases "hops E u v") auto
  from hops_path [OF assms(1)] m have "(u, v) \<in> E ^^ Suc m" by simp
  then obtain w where w: "(u, w) \<in> E ^^ m" "(w, v) \<in> E" by auto
  then have r: "(u, w) \<in> E\<^sup>*" by (auto simp: rtrancl_power)
  have "hops E u w \<le> m" using w(1) by (rule hops_le)
  moreover have "Suc m \<le> Suc (hops E u w)" using hops_step [OF r w(2)] m by simp
  ultimately show ?thesis using r w(2) m by auto
qed

section \<open>Correctness of the traversal\<close>

lemma walk_parent_chain_some:
  assumes "tree_inv E r V pm"
  shows "t \<in> V \<Longrightarrow> \<exists>xs. walk_parent_chain pm n t td ce = Some (ce @ xs) \<and> chain_ok E r V n t td xs"
proof (induction "hops E r t" arbitrary: t td ce)
  case 0
  then have "t = r" using assms hops_zero [of r t E] unfolding tree_inv_def by auto
  then have "walk_parent_chain pm n t td ce = Some (ce @ [])"
    using assms by (subst walk_parent_chain.simps) (simp add: tree_inv_def)
  moreover have "chain_ok E r V n t td []" using 0 by (simp add: chain_ok_def)
  ultimately show ?case by blast
next
  case (Suc m)
  then have "t \<noteq> r" using hops_self [of E r] by auto
  with Suc assms obtain p where p: "pm t = Some (Some p)" "p \<in> V" "(p, t) \<in> E"
      "hops E r t = Suc (hops E r p)"
    unfolding tree_inv_def by blast
  with Suc have "m = hops E r p" by simp
  from Suc.hyps(1) [OF this p(2), of "td + 1" "ce @ [(p, n, td + 1)]"]
  obtain xs where xs: "walk_parent_chain pm n p (td + 1) (ce @ [(p, n, td + 1)])
        = Some ((ce @ [(p, n, td + 1)]) @ xs)" "chain_ok E r V n p (td + 1) xs"
    by blast
  have w: "walk_parent_chain pm n t td ce = Some (ce @ ((p, n, td + 1) # xs))"
    using p(1) xs(1) by (subst walk_parent_chain.simps) simp
  have old: "\<And>a v k. (a, v, k) \<in> set xs \<Longrightarrow> v = n \<and> a \<in> V \<and> td + 1 < k \<and> (a, p) \<in> E ^^ nat (k - (td + 1)) \<and>
         hops E r p = hops E r a + nat (k - (td + 1))"
    using xs(2) unfolding chain_ok_def by blast
  have c1: "v = n \<and> a \<in> V \<and> td < k \<and> (a, t) \<in> E ^^ nat (k - td) \<and>
         hops E r t = hops E r a + nat (k - td)" if "(a, v, k) \<in> set ((p, n, td + 1) # xs)" for a v k
  proof (cases "(a, v, k) = (p, n, td + 1)")
    case True
    then show ?thesis using p by auto
  next
    case False
    with that have m: "(a, v, k) \<in> set xs" by auto
    from old [OF m] have o: "v = n" "a \<in> V" "td + 1 < k" "(a, p) \<in> E ^^ nat (k - (td + 1))"
      "hops E r p = hops E r a + nat (k - (td + 1))" by auto
    have e: "nat (k - td) = Suc (nat (k - (td + 1)))" using o(3) by simp
    have "(a, t) \<in> E ^^ Suc (nat (k - (td + 1)))" using o(4) p(3) by auto
    then show ?thesis using o p(4) e by simp
  qed
  have c2: "distinct (map fst ((p, n, td + 1) # xs))"
  proof -
    have "p \<notin> fst ` set xs"
    proof
      assume "p \<in> fst ` set xs"
      then obtain v k where "(p, v, k) \<in> set xs" by force
      from old [OF this] show False by linarith
    qed
    then show ?thesis using xs(2) by (simp add: chain_ok_def)
  qed
  have c3: "\<exists>a. (a, n, td + int j) \<in> set ((p, n, td + 1) # xs)" if "1 \<le> j" "j \<le> hops E r t" for j
  proof (cases "j = 1")
    case True
    then show ?thesis by auto
  next
    case False
    with that p(4) have "1 \<le> j - 1 \<and> j - 1 \<le> hops E r p" by arith
    with xs(2) obtain a where "(a, n, td + 1 + int (j - 1)) \<in> set xs"
      unfolding chain_ok_def by blast
    moreover have "td + 1 + int (j - 1) = td + int j" using that by simp
    ultimately show ?thesis by auto
  qed
  have "chain_ok E r V n t td ((p, n, td + 1) # xs)"
    unfolding chain_ok_def using c1 c2 c3 by blast
  with w show ?case by blast
qed

lemma tree_inv_discover:
  assumes "tree_inv E r V pm" "n \<notin> V" "c \<in> V" "(c, n) \<in> E" "hops E r n = Suc (hops E r c)"
  shows "tree_inv E r V (pm(n \<mapsto> Some c))" and "tree_inv E r (insert n V) (pm(n \<mapsto> Some c))"
proof -
  from assms(1) have r: "r \<in> V" and sub: "V \<subseteq> E\<^sup>* `` {r}" and pr: "pm r = Some None"
    and par: "\<And>v. v \<in> V \<Longrightarrow> v \<noteq> r \<Longrightarrow>
        \<exists>p. pm v = Some (Some p) \<and> p \<in> V \<and> (p, v) \<in> E \<and> hops E r v = Suc (hops E r p)"
    unfolding tree_inv_def by auto
  from r assms(2) have nr: "n \<noteq> r" by auto
  have par': "\<exists>p. (pm(n \<mapsto> Some c)) v = Some (Some p) \<and> p \<in> V \<and> (p, v) \<in> E \<and>
        hops E r v = Suc (hops E r p)" if "v \<in> V" "v \<noteq> r" for v
    using par [OF that] that assms(2) by auto
  show "tree_inv E r V (pm(n \<mapsto> Some c))"
    unfolding tree_inv_def using r sub pr nr par' by auto
  from sub assms(3,4) have "n \<in> E\<^sup>* `` {r}" by (auto intro: rtrancl_into_rtrancl)
  with sub have sub': "insert n V \<subseteq> E\<^sup>* `` {r}" by auto
  have "\<exists>p. (pm(n \<mapsto> Some c)) v = Some (Some p) \<and> p \<in> insert n V \<and> (p, v) \<in> E \<and>
        hops E r v = Suc (hops E r p)" if "v \<in> insert n V" "v \<noteq> r" for v
  proof (cases "v = n")
    case True
    then show ?thesis using assms(3,4,5) by auto
  next
    case False
    with that have "v \<in> V" by auto
    from par' [OF this that(2)] show ?thesis by auto
  qed
  then show "tree_inv E r (insert n V) (pm(n \<mapsto> Some c))"
    unfolding tree_inv_def using r sub' pr nr by auto
qed

lemma discover_hops:
  assumes T: "tree_inv E r V pm" and F: "front_inv E r c Y V qn"
    and cn: "(c, n) \<in> E" and nV: "n \<notin> V"
  shows "hops E r n = Suc (hops E r c)"
proof -
  from T have r: "r \<in> V" and sub: "V \<subseteq> E\<^sup>* `` {r}" unfolding tree_inv_def by auto
  from F have cV: "c \<in> V" unfolding front_inv_def by auto
  with sub have cR: "(r, c) \<in> E\<^sup>*" by auto
  with cn have nR: "(r, n) \<in> E\<^sup>*" by (auto intro: rtrancl_into_rtrancl)
  from r nV have "n \<noteq> r" by auto
  from hops_pred [OF nR this] obtain w where w: "(r, w) \<in> E\<^sup>*" "(w, n) \<in> E"
      "hops E r n = Suc (hops E r w)" by blast
  have "\<not> hops E r w < hops E r c"
  proof
    assume "hops E r w < hops E r c"
    with F w(1) have "w \<in> V - set qn - {c}" unfolding front_inv_def by blast
    with F have "E `` {w} \<subseteq> V" unfolding front_inv_def by blast
    with w(2) nV show False by auto
  qed
  with w(3) hops_step [OF cR cn] show ?thesis by simp
qed

lemma front_inv_skip:
  assumes "front_inv E r c (insert n X) V qn" "n \<in> V"
  shows "front_inv E r c X V qn"
  using assms unfolding front_inv_def by auto

lemma front_inv_discover:
  assumes F: "front_inv E r c (insert n X) V qn" and nV: "n \<notin> V"
    and h: "hops E r n = Suc (hops E r c)"
  shows "front_inv E r c X (insert n V) (qn @ [n])"
proof -
  from F have cV: "c \<in> V" and qV: "set qn \<subseteq> V" and dq: "distinct (c # qn)"
    and so: "sorted (map (hops E r) qn)"
    and bd: "\<And>v. v \<in> set qn \<Longrightarrow> hops E r c \<le> hops E r v \<and> hops E r v \<le> Suc (hops E r c)"
    and pr: "\<And>u. u \<in> V - set qn - {c} \<Longrightarrow> E `` {u} \<subseteq> V"
    and cu: "E `` {c} \<subseteq> V \<union> insert n X"
    and lo: "\<And>w. w \<in> E\<^sup>* `` {r} \<Longrightarrow> hops E r w < hops E r c \<Longrightarrow> w \<in> V - set qn - {c}"
    unfolding front_inv_def by auto
  have 1: "c \<in> insert n V" using cV by simp
  have 2: "set (qn @ [n]) \<subseteq> insert n V" using qV by auto
  have 3: "distinct (c # qn @ [n])" using dq nV cV qV by auto
  have 4: "sorted (map (hops E r) (qn @ [n]))"
    using so bd h by (auto simp: sorted_append)
  have 5: "\<forall>v\<in>set (qn @ [n]). hops E r c \<le> hops E r v \<and> hops E r v \<le> Suc (hops E r c)"
    using bd h by auto
  have e: "insert n V - set (qn @ [n]) - {c} = V - set qn - {c}" using nV by auto
  have 6: "\<forall>u\<in>insert n V - set (qn @ [n]) - {c}. E `` {u} \<subseteq> insert n V"
    unfolding e using pr by blast
  have 7: "E `` {c} \<subseteq> insert n V \<union> X" using cu by auto
  have 8: "\<forall>w\<in>E\<^sup>* `` {r}. hops E r w < hops E r c \<longrightarrow> w \<in> insert n V - set (qn @ [n]) - {c}"
    unfolding e using lo by blast
  show ?thesis unfolding front_inv_def using 1 2 3 4 5 6 7 8 by blast
qed

lemma front_inv_pop:
  assumes F: "front_inv E r c {} V (c' # qn)" and r: "r \<in> V"
  shows "front_inv E r c' (E `` {c'}) V qn"
proof -
  from F have cV: "c \<in> V" and qV: "set (c' # qn) \<subseteq> V" and dq: "distinct (c # c' # qn)"
    and so: "sorted (map (hops E r) (c' # qn))"
    and bd: "\<And>v. v \<in> set (c' # qn) \<Longrightarrow> hops E r c \<le> hops E r v \<and> hops E r v \<le> Suc (hops E r c)"
    and pr: "\<And>u. u \<in> V - set (c' # qn) - {c} \<Longrightarrow> E `` {u} \<subseteq> V"
    and cu: "E `` {c} \<subseteq> V"
    and lo: "\<And>w. w \<in> E\<^sup>* `` {r} \<Longrightarrow> hops E r w < hops E r c \<Longrightarrow> w \<in> V - set (c' # qn) - {c}"
    unfolding front_inv_def by auto
  have hc: "hops E r c \<le> hops E r c'" "hops E r c' \<le> Suc (hops E r c)" using bd [of c'] by auto
  have 1: "c' \<in> V" using qV by simp
  have 2: "set qn \<subseteq> V" using qV by simp
  have 3: "distinct (c' # qn)" using dq by simp
  have 4: "sorted (map (hops E r) qn)" using so by simp
  have 5: "\<forall>v\<in>set qn. hops E r c' \<le> hops E r v \<and> hops E r v \<le> Suc (hops E r c')"
    using so bd hc by fastforce
  have 6: "\<forall>u\<in>V - set qn - {c'}. E `` {u} \<subseteq> V"
  proof
    fix u assume u: "u \<in> V - set qn - {c'}"
    show "E `` {u} \<subseteq> V"
    proof (cases "u = c")
      case True then show ?thesis using cu by simp
    next
      case False with u have "u \<in> V - set (c' # qn) - {c}" by auto
      then show ?thesis by (rule pr)
    qed
  qed
  have 7: "E `` {c'} \<subseteq> V \<union> E `` {c'}" by simp
  have 8: "\<forall>w\<in>E\<^sup>* `` {r}. hops E r w < hops E r c' \<longrightarrow> w \<in> V - set qn - {c'}"
  proof (intro ballI impI)
    fix w assume wR: "w \<in> E\<^sup>* `` {r}" and lt: "hops E r w < hops E r c'"
    have wq: "w \<notin> set (c' # qn)"
    proof
      assume "w \<in> set (c' # qn)"
      then have "hops E r c' \<le> hops E r w" using so by auto
      with lt show False by simp
    qed
    have "w \<in> V"
    proof (cases "hops E r w < hops E r c")
      case True
      from lo [OF wR this] show ?thesis by simp
    next
      case False
      show ?thesis
      proof (cases "w = r")
        case True then show ?thesis using r by simp
      next
        case wr: False
        from wR have "(r, w) \<in> E\<^sup>*" by simp
        from hops_pred [OF this wr] obtain p where p: "(r, p) \<in> E\<^sup>*" "(p, w) \<in> E"
          "hops E r w = Suc (hops E r p)" by blast
        with lt hc have "hops E r p < hops E r c" by simp
        with lo [of p] p(1) have "p \<in> V - set (c' # qn) - {c}" by simp
        from pr [OF this] p(2) show ?thesis by auto
      qed
    qed
    with wq show "w \<in> V - set qn - {c'}" by simp
  qed
  show ?thesis unfolding front_inv_def using 1 2 3 4 5 6 7 8 by blast
qed

lemma front_inv_init: "front_inv E r r (E `` {r}) {r} []"
  unfolding front_inv_def by (auto simp: hops_self)

lemma front_inv_final:
  assumes F: "front_inv E r c {} V []" and r: "r \<in> V"
  shows "E\<^sup>* `` {r} \<subseteq> V"
proof
  fix w assume "w \<in> E\<^sup>* `` {r}"
  then have "(r, w) \<in> E\<^sup>*" by simp
  then show "w \<in> V"
  proof (induction rule: rtrancl_induct)
    case base
    then show ?case using r .
  next
    case (step y z)
    from F have "E `` {y} \<subseteq> V" if "y \<in> V" using that unfolding front_inv_def by (cases "y = c") auto
    with step show ?case by auto
  qed
qed

lemma entries_inv_discover:
  assumes N: "entries_inv E r V ce" and C: "chain_ok E r V n c 1 xs"
    and cV: "c \<in> V" and nV: "n \<notin> V" and rV: "r \<in> V" and cn: "(c, n) \<in> E"
    and h: "hops E r n = Suc (hops E r c)"
  shows "entries_inv E r (insert n V) (ce @ (c, n, 1) # xs)"
proof -
  let ?f = "\<lambda>e::entry. (fst e, fst (snd e))"
  from N have root: "(r, r, 0) \<in> set ce"
    and old: "\<And>a v k. (a, v, k) \<in> set ce \<Longrightarrow> (a, v, k) = (r, r, 0) \<or>
         (1 \<le> k \<and> a \<in> V \<and> v \<in> V \<and> (a, v) \<in> E ^^ nat k \<and> hops E r v = hops E r a + nat k)"
    and dis: "distinct (map ?f ce)"
    and com: "\<And>v j. v \<in> V \<Longrightarrow> v \<noteq> r \<Longrightarrow> 1 \<le> j \<Longrightarrow> j \<le> hops E r v \<Longrightarrow> \<exists>a. (a, v, int j) \<in> set ce"
    unfolding entries_inv_def by auto
  from C have ch: "\<And>a v k. (a, v, k) \<in> set xs \<Longrightarrow> v = n \<and> a \<in> V \<and> 1 < k \<and>
        (a, c) \<in> E ^^ nat (k - 1) \<and> hops E r c = hops E r a + nat (k - 1)"
    and chd: "distinct (map fst xs)"
    and chc: "\<And>j. 1 \<le> j \<Longrightarrow> j \<le> hops E r c \<Longrightarrow> \<exists>a. (a, n, 1 + int j) \<in> set xs"
    unfolding chain_ok_def by auto
  from rV nV have nr: "n \<noteq> r" by auto
  have 1: "(r, r, 0) \<in> set (ce @ (c, n, 1) # xs)" using root by simp
  have 2: "(a, v, k) = (r, r, 0) \<or>
         (1 \<le> k \<and> a \<in> insert n V \<and> v \<in> insert n V \<and> (a, v) \<in> E ^^ nat k \<and>
          hops E r v = hops E r a + nat k)"
    if m: "(a, v, k) \<in> set (ce @ (c, n, 1) # xs)" for a v k
  proof -
    from m consider "(a, v, k) \<in> set ce" | "(a, v, k) = (c, n, 1)" | "(a, v, k) \<in> set xs" by auto
    then show ?thesis
    proof cases
      case 1
      from old [OF this] show ?thesis by auto
    next
      case 2
      then show ?thesis using cV cn h by auto
    next
      case 3
      from ch [OF this] have o: "v = n" "a \<in> V" "1 < k" "(a, c) \<in> E ^^ nat (k - 1)"
        "hops E r c = hops E r a + nat (k - 1)" by auto
      have e: "nat k = Suc (nat (k - 1))" using o(3) by simp
      have "(a, n) \<in> E ^^ Suc (nat (k - 1))" using o(4) cn by auto
      then show ?thesis using o h e by simp
    qed
  qed
  have sndold: "fst (snd e) \<noteq> n" if "e \<in> set ce" for e
  proof -
    obtain a v k where e: "e = (a, v, k)" by (cases e) auto
    from old [of a v k] that e have "v = r \<or> v \<in> V" by auto
    with nr nV e show ?thesis by auto
  qed
  have sndnew: "fst (snd e) = n" if "e \<in> set ((c, n, 1) # xs)" for e
  proof -
    obtain a v k where e: "e = (a, v, k)" by (cases e) auto
    with that ch [of a v k] show ?thesis by auto
  qed
  have cx: "c \<notin> fst ` set xs"
  proof
    assume "c \<in> fst ` set xs"
    then obtain v k where "(c, v, k) \<in> set xs" by force
    from ch [OF this] show False by linarith
  qed
  have dx: "distinct (map ?f xs)"
  proof -
    from chd have d: "distinct xs" and i: "inj_on fst (set xs)" by (auto simp: distinct_map)
    have "inj_on ?f (set xs)"
      by (rule inj_onI) (use i in \<open>auto dest: inj_onD\<close>)
    with d show ?thesis by (simp add: distinct_map)
  qed
  have dn: "distinct (map ?f ((c, n, 1) # xs))"
    using dx cx by (auto simp: image_iff)
  have dj: "?f ` set ce \<inter> ?f ` set ((c, n, 1) # xs) = {}"
  proof -
    have "?f e1 \<noteq> ?f e2" if "e1 \<in> set ce" "e2 \<in> set ((c, n, 1) # xs)" for e1 e2
      using sndold [OF that(1)] sndnew [OF that(2)] by auto
    then show ?thesis by blast
  qed
  have 3: "distinct (map ?f (ce @ (c, n, 1) # xs))"
    using dis dn dj by (simp only: map_append distinct_append set_map)
  have 4: "\<exists>a. (a, v, int j) \<in> set (ce @ (c, n, 1) # xs)"
    if "v \<in> insert n V" "v \<noteq> r" "1 \<le> j" "j \<le> hops E r v" for v j
  proof (cases "v = n")
    case False
    with that have "v \<in> V" by simp
    from com [OF this that(2,3,4)] show ?thesis by auto
  next
    case vn: True
    show ?thesis
    proof (cases "j = 1")
      case True
      with vn show ?thesis by auto
    next
      case False
      with that h vn have "1 \<le> j - 1" "j - 1 \<le> hops E r c" by auto
      from chc [OF this] obtain a where "(a, n, 1 + int (j - 1)) \<in> set xs" by blast
      moreover have "1 + int (j - 1) = int j" using that by simp
      ultimately show ?thesis using vn by auto
    qed
  qed
  show ?thesis unfolding entries_inv_def using 1 2 3 4 by blast
qed

lemma explore_neighbors_inv:
  assumes fin: "finite (E\<^sup>* `` {r})"
  shows "set ns \<subseteq> E `` {c} \<Longrightarrow> bfs_inv E r c (set ns) s \<Longrightarrow>
     \<exists>s'. explore_neighbors c ns s = Some s' \<and> bfs_inv E r c {} s' \<and>
       card (E\<^sup>* `` {r} - visited s') + length (queue s') =
       card (E\<^sup>* `` {r} - visited s) + length (queue s)"
proof (induction ns arbitrary: s)
  case Nil
  then show ?case by simp
next
  case (Cons n ns)
  from Cons.prems have sub: "set ns \<subseteq> E `` {c}" and cn: "(c, n) \<in> E" by auto
  from Cons.prems(2) have T: "tree_inv E r (visited s) (parent_map s)"
    and F: "front_inv E r c (insert n (set ns)) (visited s) (qnodes (queue s))"
    and N: "entries_inv E r (visited s) (closure_entries s)"
    and Q: "\<And>a v k. (a, v, k) \<in> set (queue s) \<Longrightarrow> a \<noteq> v"
    unfolding bfs_inv_def by auto
  show ?case
  proof (cases "n \<in> visited s")
    case True
    from front_inv_skip [OF F True] T N Q have "bfs_inv E r c (set ns) s"
      unfolding bfs_inv_def by blast
    from Cons.IH [OF sub this] True show ?thesis by simp
  next
    case False
    let ?pm = "(parent_map s)(n \<mapsto> Some c)"
    from F have cV: "c \<in> visited s" unfolding front_inv_def by simp
    from T have rV: "r \<in> visited s" and VR: "visited s \<subseteq> E\<^sup>* `` {r}"
      unfolding tree_inv_def by auto
    have h: "hops E r n = Suc (hops E r c)" by (rule discover_hops [OF T F cn False])
    note T' = tree_inv_discover [OF T False cV cn h]
    from walk_parent_chain_some [OF T'(1) cV, of n 1 "closure_entries s @ [(c, n, 1)]"]
    obtain xs where w: "walk_parent_chain ?pm n c 1 (closure_entries s @ [(c, n, 1)])
        = Some ((closure_entries s @ [(c, n, 1)]) @ xs)" and C: "chain_ok E r (visited s) n c 1 xs"
      by blast
    let ?s = "s\<lparr>visited := insert n (visited s), parent_map := ?pm,
                queue := queue s @ [(c, n, 1)],
                closure_entries := (closure_entries s @ [(c, n, 1)]) @ xs\<rparr>"
    have N': "entries_inv E r (insert n (visited s)) (closure_entries s @ (c, n, 1) # xs)"
      by (rule entries_inv_discover [OF N C cV False rV cn h])
    have F': "front_inv E r c (set ns) (insert n (visited s)) (qnodes (queue s) @ [n])"
      by (rule front_inv_discover [OF F False h])
    have cnn: "c \<noteq> n" using cV False by auto
    have inv: "bfs_inv E r c (set ns) ?s"
      unfolding bfs_inv_def using T'(2) F' N' Q cnn by (auto simp: qnodes_def)
    from Cons.IH [OF sub inv] obtain s' where s': "explore_neighbors c ns ?s = Some s'"
      "bfs_inv E r c {} s'"
      "card (E\<^sup>* `` {r} - visited s') + length (queue s') =
       card (E\<^sup>* `` {r} - visited ?s) + length (queue ?s)" by blast
    have nR: "n \<in> E\<^sup>* `` {r}" using VR cV cn by (auto intro: rtrancl_into_rtrancl)
    have "E\<^sup>* `` {r} - visited s = insert n (E\<^sup>* `` {r} - insert n (visited s))"
      using nR False by auto
    moreover have "finite (E\<^sup>* `` {r} - insert n (visited s))" using fin by simp
    ultimately have "card (E\<^sup>* `` {r} - visited s) = Suc (card (E\<^sup>* `` {r} - insert n (visited s)))"
      by (metis card_insert_disjoint Diff_iff insertI1)
    with s'(3) have m: "card (E\<^sup>* `` {r} - visited s') + length (queue s') =
       card (E\<^sup>* `` {r} - visited s) + length (queue s)" by simp
    have "explore_neighbors c (n # ns) s = Some s'"
      using False w s'(1) by simp
    with s'(2) m show ?thesis by blast
  qed
qed

lemma bfs_loop_total:
  assumes fin: "finite ((edge_rel nb)\<^sup>* `` {r})"
    and noerr: "\<And>v. v \<in> (edge_rel nb)\<^sup>* `` {r} \<Longrightarrow> \<exists>ns. nb v = Inr ns"
  shows "bfs_inv (edge_rel nb) r c {} s \<Longrightarrow>
     \<exists>es. bfs_loop nb s = Some (Inr es) \<and> entries_inv (edge_rel nb) r ((edge_rel nb)\<^sup>* `` {r}) es"
proof (induction "card ((edge_rel nb)\<^sup>* `` {r} - visited s) + length (queue s)"
    arbitrary: s c rule: less_induct)
  case less
  let ?E = "edge_rel nb"
  from less.prems have T: "tree_inv ?E r (visited s) (parent_map s)"
    and F: "front_inv ?E r c {} (visited s) (qnodes (queue s))"
    and N: "entries_inv ?E r (visited s) (closure_entries s)"
    and Q: "\<And>a v k. (a, v, k) \<in> set (queue s) \<Longrightarrow> a \<noteq> v"
    unfolding bfs_inv_def by auto
  from T have rV: "r \<in> visited s" and VR: "visited s \<subseteq> ?E\<^sup>* `` {r}"
    unfolding tree_inv_def by auto
  show ?case
  proof (cases "queue s")
    case Nil
    with F have "front_inv ?E r c {} (visited s) []" by (simp add: qnodes_def)
    from front_inv_final [OF this rV] VR have "visited s = ?E\<^sup>* `` {r}" by auto
    with N have "entries_inv ?E r (?E\<^sup>* `` {r}) (closure_entries s)" by simp
    moreover have "bfs_loop nb s = Some (Inr (closure_entries s))"
      using Nil by (subst bfs_loop.simps) simp
    ultimately show ?thesis by blast
  next
    case (Cons e q)
    obtain a c' k where e: "e = (a, c', k)" by (cases e) auto
    from Q [of a c' k] Cons e have ac: "a \<noteq> c'" by simp
    let ?s = "s\<lparr>queue := q\<rparr>"
    from F Cons e have "front_inv ?E r c {} (visited s) (c' # qnodes q)" by (simp add: qnodes_def)
    from front_inv_pop [OF this rV] have F': "front_inv ?E r c' (?E `` {c'}) (visited s) (qnodes q)" .
    then have c'V: "c' \<in> visited s" unfolding front_inv_def by simp
    with VR noerr obtain ns where ns: "nb c' = Inr ns" by blast
    then have adj: "set ns = ?E `` {c'}" by (auto simp: edge_rel_def adjacency_def)
    have inv: "bfs_inv ?E r c' (set ns) ?s"
      unfolding bfs_inv_def adj using T F' N Q Cons by auto
    from explore_neighbors_inv [OF fin _ inv] adj obtain s' where
      s': "explore_neighbors c' ns ?s = Some s'" "bfs_inv ?E r c' {} s'"
       "card (?E\<^sup>* `` {r} - visited s') + length (queue s') =
        card (?E\<^sup>* `` {r} - visited ?s) + length (queue ?s)" by blast
    have "card (?E\<^sup>* `` {r} - visited s') + length (queue s') <
        card (?E\<^sup>* `` {r} - visited s) + length (queue s)"
      using s'(3) Cons by simp
    from less.hyps [OF this s'(2)] obtain es where
      es: "bfs_loop nb s' = Some (Inr es)" "entries_inv ?E r (?E\<^sup>* `` {r}) es" by blast
    have "bfs_loop nb s = Some (Inr es)"
      using Cons e ac ns s'(1) es(1) by (subst bfs_loop.simps) simp
    with es(2) show ?thesis by blast
  qed
qed

lemma bfs_traversal_total:
  assumes fin: "finite ((edge_rel nb)\<^sup>* `` {r})"
    and noerr: "\<And>v. v \<in> (edge_rel nb)\<^sup>* `` {r} \<Longrightarrow> \<exists>ns. nb v = Inr ns"
  shows "\<exists>es. bfs_traversal nb r = Some (Inr es) \<and>
           entries_inv (edge_rel nb) r ((edge_rel nb)\<^sup>* `` {r}) es"
proof -
  let ?E = "edge_rel nb"
  let ?s = "\<lparr>closure_entries = [(r, r, 0)], visited = {r}, queue = [],
             parent_map = [r \<mapsto> None]\<rparr>"
  from noerr [of r] obtain ns where ns: "nb r = Inr ns" by auto
  then have adj: "set ns = ?E `` {r}" by (auto simp: edge_rel_def adjacency_def)
  have T: "tree_inv ?E r {r} [r \<mapsto> None]" by (simp add: tree_inv_def)
  have N: "entries_inv ?E r {r} [(r, r, 0)]" by (simp add: entries_inv_def)
  have inv: "bfs_inv ?E r r (set ns) ?s"
    unfolding bfs_inv_def adj using T N front_inv_init [of ?E r] by (simp add: qnodes_def)
  from explore_neighbors_inv [OF fin _ inv] adj obtain s' where
    s': "explore_neighbors r ns ?s = Some s'" "bfs_inv ?E r r {} s'" by blast
  from bfs_loop_total [OF fin noerr s'(2)] obtain es where
    es: "bfs_loop nb s' = Some (Inr es)" "entries_inv ?E r (?E\<^sup>* `` {r}) es" by blast
  have "bfs_traversal nb r = Some (Inr es)"
    unfolding bfs_traversal_def bfs_init_def
    using ns s'(1) es(1) by (subst bfs_loop.simps) simp
  with es(2) show ?thesis by blast
qed

section \<open>The traversal on the two adapters\<close>

lemma finite_reach:
  assumes "finite (Range E)"
  shows "finite (E\<^sup>* `` {r})"
proof -
  have "E\<^sup>* `` {r} \<subseteq> insert r (Range E)"
  proof
    fix v assume "v \<in> E\<^sup>* `` {r}"
    then have "(r, v) \<in> E\<^sup>*" by simp
    then show "v \<in> insert r (Range E)" by (cases rule: rtranclE) auto
  qed
  with assms show ?thesis by (meson finite_insert finite_subset)
qed

lemma Manual_edges_iff: "(u, v) \<in> Manual_edges m \<longleftrightarrow> v \<in> set (ManualNetworkAdapter_get_neighbors m u)"
  by (simp add: Manual_edges_def edge_rel_def adjacency_def)

lemma Manual_edges_finite: "finite ((Manual_edges m)\<^sup>* `` {r})"
proof (rule finite_reach)
  have "Range (Manual_edges m) \<subseteq> \<Union> (set ` snd ` set (edges m))"
  proof
    fix v assume "v \<in> Range (Manual_edges m)"
    then obtain u where "v \<in> set (ManualNetworkAdapter_get_neighbors m u)"
      by (auto simp: Manual_edges_iff)
    then obtain s where "map_of (edges m) u = Some s" "v \<in> set s"
      by (cases "map_of (edges m) u") (auto simp: ManualNetworkAdapter_get_neighbors_def)
    then have "(u, s) \<in> set (edges m)" "v \<in> set s" by (auto dest: map_of_SomeD)
    then show "v \<in> \<Union> (set ` snd ` set (edges m))" by force
  qed
  then show "finite (Range (Manual_edges m))" by (rule finite_subset) auto
qed

lemma Manual_bfs_total:
  "\<exists>es. ManualNetworkAdapter_bfs_traversal m r = Some (Inr es) \<and>
     entries_inv (Manual_edges m) r ((Manual_edges m)\<^sup>* `` {r}) es"
  unfolding ManualNetworkAdapter_bfs_traversal_def Manual_edges_def
  by (rule bfs_traversal_total) (use Manual_edges_finite [of m r] in \<open>auto simp: Manual_edges_def\<close>)

lemma NX_edges_iff:
  "(u, v) \<in> NX_edges x \<longleftrightarrow> (\<exists>row. map_of (nx_adj (graph x)) u = Some row \<and> v \<in> fst ` set row)"
  by (auto simp: NX_edges_def edge_rel_def adjacency_def NetworkXAdapter_get_neighbors_def
      nx_neighbors_def split: option.splits)

lemma NX_edges_finite: "finite ((NX_edges x)\<^sup>* `` {r})"
proof (rule finite_reach)
  have "Range (NX_edges x) \<subseteq> \<Union> ((\<lambda>p. fst ` set (snd p)) ` set (nx_adj (graph x)))"
  proof
    fix v assume "v \<in> Range (NX_edges x)"
    then obtain u row where "map_of (nx_adj (graph x)) u = Some row" "v \<in> fst ` set row"
      unfolding Range_iff NX_edges_iff by blast
    then have "(u, row) \<in> set (nx_adj (graph x))" "v \<in> fst ` set row" by (auto dest: map_of_SomeD)
    then show "v \<in> \<Union> ((\<lambda>p. fst ` set (snd p)) ` set (nx_adj (graph x)))" by force
  qed
  then show "finite (Range (NX_edges x))" by (rule finite_subset) auto
qed

lemma NX_reach_present:
  assumes ok: "nx_ok (graph x)" and r: "r \<in> set (NetworkXAdapter_get_nodes x)"
  shows "v \<in> (NX_edges x)\<^sup>* `` {r} \<Longrightarrow> \<exists>ns. NetworkXAdapter_get_neighbors x v = Inr ns"
proof -
  assume "v \<in> (NX_edges x)\<^sup>* `` {r}"
  then have "(r, v) \<in> (NX_edges x)\<^sup>*" by simp
  then have "v \<in> fst ` set (nx_adj (graph x))"
  proof (induction rule: rtrancl_induct)
    case base
    then show ?case using ok r by (simp add: nx_ok_def NetworkXAdapter_get_nodes_def nx_nodes_def)
  next
    case (step y z)
    then show ?case using ok unfolding nx_ok_def NX_edges_iff by blast
  qed
  then obtain row where "map_of (nx_adj (graph x)) v = Some row"
    by (cases "map_of (nx_adj (graph x)) v") (auto simp: map_of_eq_None_iff)
  then show ?thesis by (simp add: NetworkXAdapter_get_neighbors_def nx_neighbors_def)
qed

lemma NX_bfs_total:
  assumes "nx_ok (graph x)" and "r \<in> set (NetworkXAdapter_get_nodes x)"
  shows "\<exists>es. NetworkXAdapter_bfs_traversal x r = Some (Inr es) \<and>
     entries_inv (NX_edges x) r ((NX_edges x)\<^sup>* `` {r}) es"
  unfolding NetworkXAdapter_bfs_traversal_def NX_edges_def
  by (rule bfs_traversal_total)
    (use NX_edges_finite [of x r] NX_reach_present [OF assms] in \<open>auto simp: NX_edges_def\<close>)

lemma pair_fun: "(\<lambda>(a, d, k). (a, d)) = (\<lambda>e::entry. (fst e, fst (snd e)))"
  by (auto simp: fun_eq_iff)

lemma entries_inv_pairs: "entries_inv E r V es \<Longrightarrow> distinct (map (\<lambda>(a, d, k). (a, d)) es)"
  by (simp add: entries_inv_def pair_fun)

lemma entries_inv_min_edges:
  assumes N: "entries_inv E r V es" and V: "V \<subseteq> E\<^sup>* `` {r}"
    and m: "(a, d, k) \<in> set es" and k: "0 < k"
  shows "min_edges E a d k"
proof -
  from N m k have a: "a \<in> V" and p: "(a, d) \<in> E ^^ nat k"
    and h: "hops E r d = hops E r a + nat k"
    unfolding entries_inv_def by blast+
  from a V have ra: "(r, a) \<in> E\<^sup>*" by auto
  have "nat k \<le> n" if "(a, d) \<in> E ^^ n" for n
    using hops_triangle [OF ra that] h by simp
  with p k show ?thesis unfolding min_edges_def by auto
qed

text \<open>Well-formedness of the \<^verbatim>\<open>networkx\<close> graph is kept by every operation of the adapter.\<close>

lemma map_of_map_row:
  "map_of (map (\<lambda>(k, row). if k = u then (k, g row) else (k, row)) al) k =
     map_option (\<lambda>row. if k = u then g row else row) (map_of al k)"
  by (induction al) auto

lemma keys_map_row:
  "fst ` set (map (\<lambda>(k, row). if k = u then (k, g row) else (k, row)) al) = fst ` set al"
  by (induction al) auto

lemma nx_ok_new: "nx_ok nx_new"
  by (simp add: nx_ok_def nx_new_def)

lemma keys_update: "fst ` set (AList.update k v al) = insert k (fst ` set al)"
  by (simp add: dom_update)

lemma nx_ok_ensure_node:
  assumes ok: "nx_ok G"
  shows "nx_ok (nx_ensure_node n G)"
proof (cases "n \<in> fst ` set (nx_node G)")
  case True
  with ok show ?thesis by (simp add: nx_ensure_node_def)
next
  case False
  have e: "nx_ensure_node n G =
      G\<lparr>nx_adj := AList.update n [] (nx_adj G), nx_node := AList.update n [] (nx_node G)\<rparr>"
    using False by (simp add: nx_ensure_node_def)
  from ok have k: "fst ` set (nx_node G) = fst ` set (nx_adj G)"
    and rows: "\<And>u row v. map_of (nx_adj G) u = Some row \<Longrightarrow> v \<in> fst ` set row \<Longrightarrow>
        v \<in> fst ` set (nx_adj G)"
    unfolding nx_ok_def by blast+
  have "v \<in> insert n (fst ` set (nx_adj G))"
    if "map_of (AList.update n [] (nx_adj G)) u = Some row" "v \<in> fst ` set row" for u row v
  proof (cases "u = n")
    case True
    with that show ?thesis by (simp add: update_conv')
  next
    case False
    with that(1) have "map_of (nx_adj G) u = Some row" by (simp add: update_conv')
    from rows [OF this that(2)] show ?thesis by simp
  qed
  then show ?thesis unfolding nx_ok_def e by (simp add: keys_update k)
qed

lemma nx_ensure_node_keys:
  "fst ` set (nx_node (nx_ensure_node n G)) = insert n (fst ` set (nx_node G))"
  by (auto simp: nx_ensure_node_def keys_update)

lemma nx_ok_add_node:
  assumes ok: "nx_ok G"
  shows "nx_ok (nx_add_node n attr G)"
proof -
  from ok have k: "fst ` set (nx_node G) = fst ` set (nx_adj G)"
    and rows: "\<And>u row v. map_of (nx_adj G) u = Some row \<Longrightarrow> v \<in> fst ` set row \<Longrightarrow>
        v \<in> fst ` set (nx_adj G)"
    unfolding nx_ok_def by blast+
  show ?thesis
  proof (cases "map_of (nx_node G) n")
    case None
    have "v \<in> insert n (fst ` set (nx_adj G))"
      if "map_of (AList.update n [] (nx_adj G)) u = Some row" "v \<in> fst ` set row" for u row v
    proof (cases "u = n")
      case True
      with that show ?thesis by (simp add: update_conv')
    next
      case False
      with that(1) have "map_of (nx_adj G) u = Some row" by (simp add: update_conv')
      from rows [OF this that(2)] show ?thesis by simp
    qed
    then show ?thesis unfolding nx_ok_def nx_add_node_def using None by (simp add: keys_update k)
  next
    case (Some d)
    then have "n \<in> fst ` set (nx_node G)" by (metis map_of_eq_None_iff option.distinct(1))
    then have "insert n (fst ` set (nx_node G)) = fst ` set (nx_adj G)" using k by auto
    then show ?thesis unfolding nx_ok_def nx_add_node_def using Some rows
      by (simp add: keys_update)
  qed
qed

lemma nx_ok_set_edge:
  assumes ok: "nx_ok G" and v: "v \<in> fst ` set (nx_node G)"
  shows "nx_ok (nx_set_edge u v d G)"
proof -
  let ?f = "\<lambda>(k, row). if k = u then (k, AList.update v d row) else (k, row)"
  from ok have k: "fst ` set (nx_node G) = fst ` set (nx_adj G)"
    and rows: "\<And>u row v. map_of (nx_adj G) u = Some row \<Longrightarrow> v \<in> fst ` set row \<Longrightarrow>
        v \<in> fst ` set (nx_adj G)"
    unfolding nx_ok_def by blast+
  have adj: "nx_adj (nx_set_edge u v d G) = map ?f (nx_adj G)"
    and node: "nx_node (nx_set_edge u v d G) = nx_node G"
    by (simp_all add: nx_set_edge_def)
  have keys: "fst ` set (map ?f (nx_adj G)) = fst ` set (nx_adj G)" by (rule keys_map_row)
  have r: "w \<in> fst ` set (nx_adj G)"
    if "map_of (map ?f (nx_adj G)) j = Some row" "w \<in> fst ` set row" for j row w
  proof -
    from that(1) obtain row0 where r0: "map_of (nx_adj G) j = Some row0"
      "row = (if j = u then AList.update v d row0 else row0)"
      unfolding map_of_map_row by auto
    show ?thesis
    proof (cases "w = v")
      case True
      then show ?thesis using v k by simp
    next
      case False
      with r0(2) that(2) have "w \<in> fst ` set row0"
        by (cases "j = u") (simp_all add: keys_update)
      from rows [OF r0(1) this] show ?thesis .
    qed
  qed
  show ?thesis unfolding nx_ok_def adj node keys using k r by blast
qed

lemma nx_set_edge_keys: "nx_node (nx_set_edge u v d G) = nx_node G"
  by (simp add: nx_set_edge_def)

lemma nx_ok_add_edge: "nx_ok G \<Longrightarrow> nx_ok (nx_add_edge u v attr G)"
  unfolding nx_add_edge_def Let_def
  by (intro nx_ok_set_edge nx_ok_ensure_node) (auto simp: nx_set_edge_keys nx_ensure_node_keys)

lemma NetworkXAdapter_ok:
  "nx_ok (graph NetworkXAdapter_init)"
  "nx_ok (graph x) \<Longrightarrow> nx_ok (graph (NetworkXAdapter_add_node x n attrs))"
  "nx_ok (graph x) \<Longrightarrow> nx_ok (graph (NetworkXAdapter_add_edge x u v attrs))"
  by (simp_all add: NetworkXAdapter_init_def NetworkXAdapter_add_node_def
      NetworkXAdapter_add_edge_def nx_ok_new nx_ok_add_node nx_ok_add_edge)

text \<open>Every network that \<^verbatim>\<open>build_network\<close> builds is well formed.\<close>

lemma net_ok_step:
  "net_ok net \<Longrightarrow> net_ok (add_node net n attrs)"
  "net_ok net \<Longrightarrow> net_ok (add_edge net u v attrs)"
  by (auto simp: net_ok_def add_node_def add_edge_def NetworkXAdapter_ok split: NetworkInterface.splits)

lemma net_ok_foldl_nodes:
  "net_ok net \<Longrightarrow> net_ok (foldl (\<lambda>net nodo. add_node net (id_nodo nodo) (nodo_attributes nodo)) net nodos)"
  by (induction nodos arbitrary: net) (simp_all add: net_ok_step)

lemma net_ok_foldl_edges:
  "net_ok net \<Longrightarrow> net_ok (foldl (\<lambda>net segmento.
      add_edge net (nodo_inicio segmento) (nodo_fin segmento) (segmento_attributes segmento)) net segmentos)"
  by (induction segmentos arbitrary: net) (simp_all add: net_ok_step)

lemma build_network_ok:
  "net_ok (get_network (build_network (NetworkBuilder_init use_networkx) nodos segmentos))"
proof -
  have "net_ok (network (NetworkBuilder_init use_networkx))"
    by (simp add: NetworkBuilder_init_def net_ok_def NetworkXAdapter_ok)
  then show ?thesis
    by (simp add: get_network_def build_network_def net_ok_foldl_edges net_ok_foldl_nodes)
qed

lemma chain_nx_run:
  "NetworkXAdapter_bfs_traversal chain_nx 1 = Some (Inr [(1, 1, 0), (1, 2, 1), (2, 3, 1), (1, 3, 2)])"
  by code_simp

text \<open>
  Claim C3.  On every graph and from every root present in it, \<^verbatim>\<open>bfs_traversal\<close> returns, and
  the entries it returns hold no two with the same (ancestor, descendant) pair.  For the
  manual adapter the root need not even be registered.
\<close>

theorem bfs_traversal_unique_pairs:
  "(\<exists>es. ManualNetworkAdapter_bfs_traversal m start = Some (Inr es) \<and>
          distinct (map (\<lambda>(a, d, k). (a, d)) es)) \<and>
   (nx_ok (graph x) \<and> start \<in> set (NetworkXAdapter_get_nodes x) \<longrightarrow>
      (\<exists>es. NetworkXAdapter_bfs_traversal x start = Some (Inr es) \<and>
            distinct (map (\<lambda>(a, d, k). (a, d)) es)))"
  using Manual_bfs_total [of m start] NX_bfs_total [of x start]
  by (blast dest: entries_inv_pairs)

text \<open>The chain 1-2-3 in the NetworkX adapter, traversed from node 1, and the empty manual adapter.\<close>

theorem bfs_traversal_unique_pairs_witness:
  "nx_ok (graph chain_nx) \<and> 1 \<in> set (NetworkXAdapter_get_nodes chain_nx) \<and>
   (\<exists>es. ManualNetworkAdapter_bfs_traversal ManualNetworkAdapter_init 1 = Some (Inr es) \<and>
          distinct (map (\<lambda>(a, d, k). (a, d)) es)) \<and>
   (\<exists>es. NetworkXAdapter_bfs_traversal chain_nx 1 = Some (Inr es) \<and>
          distinct (map (\<lambda>(a, d, k). (a, d)) es))"
proof -
  have ok: "nx_ok (graph chain_nx)" by (simp add: chain_nx_def NetworkXAdapter_ok)
  have r: "1 \<in> set (NetworkXAdapter_get_nodes chain_nx)" by code_simp
  from ok r bfs_traversal_unique_pairs [of ManualNetworkAdapter_init 1 chain_nx]
  show ?thesis by blast
qed

text \<open>
  Claim C2.  In every entry \<open>(a, d, k)\<close> with \<open>k > 0\<close> that \<^verbatim>\<open>bfs_traversal\<close> returns, \<open>k\<close> is
  the minimum number of edges on a walk from \<open>a\<close> to \<open>d\<close> in the graph.  The graph need not
  be symmetric for this.
\<close>

theorem bfs_traversal_depth_is_distance:
  "(\<exists>es. ManualNetworkAdapter_bfs_traversal m start = Some (Inr es) \<and>
          (\<forall>(a, d, k)\<in>set es. 0 < k \<longrightarrow> min_edges (Manual_edges m) a d k)) \<and>
   (nx_ok (graph x) \<and> start \<in> set (NetworkXAdapter_get_nodes x) \<longrightarrow>
      (\<exists>es. NetworkXAdapter_bfs_traversal x start = Some (Inr es) \<and>
            (\<forall>(a, d, k)\<in>set es. 0 < k \<longrightarrow> min_edges (NX_edges x) a d k)))"
proof -
  have g: "\<forall>(a, d, k)\<in>set es. 0 < k \<longrightarrow> min_edges E a d k"
    if "entries_inv E r (E\<^sup>* `` {r}) es" for E r es
    using entries_inv_min_edges [OF that] by auto
  show ?thesis
    using Manual_bfs_total [of m start] NX_bfs_total [of x start] by (blast dest: g)
qed

text \<open>
  On the chain 1-2-3 traversed from node 1 the entry \<open>(1, 3, 2)\<close> is returned, and two is
  the least number of edges from node 1 to node 3.
\<close>

theorem bfs_traversal_depth_is_distance_witness:
  "nx_ok (graph chain_nx) \<and> 1 \<in> set (NetworkXAdapter_get_nodes chain_nx) \<and>
   NetworkXAdapter_bfs_traversal chain_nx 1 =
     Some (Inr [(1, 1, 0), (1, 2, 1), (2, 3, 1), (1, 3, 2)]) \<and>
   min_edges (NX_edges chain_nx) 1 3 2"
proof -
  have ok: "nx_ok (graph chain_nx)" by (simp add: chain_nx_def NetworkXAdapter_ok)
  have r: "1 \<in> set (NetworkXAdapter_get_nodes chain_nx)" by code_simp
  from ok r bfs_traversal_depth_is_distance [of ManualNetworkAdapter_init 1 chain_nx]
  obtain es where es: "NetworkXAdapter_bfs_traversal chain_nx 1 = Some (Inr es)"
    "\<forall>(a, d, k)\<in>set es. 0 < k \<longrightarrow> min_edges (NX_edges chain_nx) a d k" by blast
  from es(1) have "es = [(1, 1, 0), (1, 2, 1), (2, 3, 1), (1, 3, 2)]" by (simp add: chain_nx_run)
  with es(2) have "min_edges (NX_edges chain_nx) 1 3 2" by simp
  with ok r chain_nx_run show ?thesis by simp
qed

section \<open>The order of the neighbours\<close>

lemma unique_ancestor:
  assumes U: "unique_parent E r"
  shows "(r, a) \<in> E\<^sup>* \<Longrightarrow> (r, b) \<in> E\<^sup>* \<Longrightarrow> (a, v) \<in> E ^^ k \<Longrightarrow> (b, v) \<in> E ^^ k \<Longrightarrow>
     hops E r v = hops E r a + k \<Longrightarrow> hops E r v = hops E r b + k \<Longrightarrow> a = b"
proof (induction k arbitrary: v)
  case 0
  from 0(3,4) show ?case by simp
next
  case (Suc k)
  from Suc.prems(3) obtain y where y: "(a, y) \<in> E ^^ k" "(y, v) \<in> E" by auto
  from Suc.prems(4) obtain z where z: "(b, z) \<in> E ^^ k" "(z, v) \<in> E" by auto
  from Suc.prems(1) y(1) have ry: "(r, y) \<in> E\<^sup>*"
    by (meson relpow_imp_rtrancl rtrancl_trans)
  from Suc.prems(2) z(1) have rz: "(r, z) \<in> E\<^sup>*"
    by (meson relpow_imp_rtrancl rtrancl_trans)
  have hy: "hops E r y = hops E r a + k"
    using hops_triangle [OF Suc.prems(1) y(1)] hops_step [OF ry y(2)] Suc.prems(5) by simp
  have hz: "hops E r z = hops E r b + k"
    using hops_triangle [OF Suc.prems(2) z(1)] hops_step [OF rz z(2)] Suc.prems(6) by simp
  from hy hz Suc.prems(5,6) have "hops E r v = Suc (hops E r y)" "hops E r v = Suc (hops E r z)"
    by simp_all
  with U ry rz y(2) z(2) have "y = z" unfolding unique_parent_def by blast
  with Suc.IH [OF Suc.prems(1,2) y(1) _ hy] z(1) hz show ?case by simp
qed

lemma entries_inv_root_part:
  assumes N: "entries_inv E r (E\<^sup>* `` {r}) es"
  shows "{e \<in> set es. fst e = r} =
     insert (r, r, 0) {(r, v, int (hops E r v)) | v. (r, v) \<in> E\<^sup>* \<and> v \<noteq> r}"
proof (intro equalityI subsetI)
  fix e assume "e \<in> {e \<in> set es. fst e = r}"
  then obtain v k where e: "e = (r, v, k)" "(r, v, k) \<in> set es" by (cases e) auto
  show "e \<in> insert (r, r, 0) {(r, v, int (hops E r v)) | v. (r, v) \<in> E\<^sup>* \<and> v \<noteq> r}"
  proof (cases "(r, v, k) = (r, r, 0)")
    case True
    with e show ?thesis by simp
  next
    case False
    with N e(2) have k: "1 \<le> k" and v: "v \<in> E\<^sup>* `` {r}"
      and h: "hops E r v = hops E r r + nat k"
      unfolding entries_inv_def by blast+
    from h k have "k = int (hops E r v)" "hops E r v \<noteq> 0" by (simp_all add: hops_self)
    moreover from this have "v \<noteq> r" using hops_self [of E r] by auto
    ultimately show ?thesis using e(1) v by auto
  qed
next
  fix e assume "e \<in> insert (r, r, 0) {(r, v, int (hops E r v)) | v. (r, v) \<in> E\<^sup>* \<and> v \<noteq> r}"
  then consider "e = (r, r, 0)" | v where "e = (r, v, int (hops E r v))" "(r, v) \<in> E\<^sup>*" "v \<noteq> r"
    by auto
  then show "e \<in> {e \<in> set es. fst e = r}"
  proof cases
    case 1
    with N show ?thesis unfolding entries_inv_def by simp
  next
    case 2
    from 2(2,3) have "hops E r v \<noteq> 0" using hops_zero by blast
    then have j: "1 \<le> hops E r v" by simp
    with N 2(2,3) obtain a where a: "(a, v, int (hops E r v)) \<in> set es"
      unfolding entries_inv_def by blast
    with N 2(3) have "a \<in> E\<^sup>* `` {r}" "hops E r v = hops E r a + nat (int (hops E r v))"
      unfolding entries_inv_def by blast+
    then have "(r, a) \<in> E\<^sup>*" "hops E r a = 0" by simp_all
    then have "a = r" by (rule hops_zero)
    with a 2(1) show ?thesis by simp
  qed
qed

lemma entries_inv_unique_set:
  assumes N: "entries_inv E r (E\<^sup>* `` {r}) es" and U: "unique_parent E r"
  shows "set es = insert (r, r, 0)
     {(a, v, k). 1 \<le> k \<and> (r, a) \<in> E\<^sup>* \<and> (r, v) \<in> E\<^sup>* \<and> (a, v) \<in> E ^^ nat k \<and>
        hops E r v = hops E r a + nat k}"
proof (intro equalityI subsetI)
  fix e assume e: "e \<in> set es"
  obtain a v k where "e = (a, v, k)" by (cases e) auto
  with N e show "e \<in> insert (r, r, 0)
     {(a, v, k). 1 \<le> k \<and> (r, a) \<in> E\<^sup>* \<and> (r, v) \<in> E\<^sup>* \<and> (a, v) \<in> E ^^ nat k \<and>
        hops E r v = hops E r a + nat k}"
    unfolding entries_inv_def by auto
next
  fix e assume "e \<in> insert (r, r, 0)
     {(a, v, k). 1 \<le> k \<and> (r, a) \<in> E\<^sup>* \<and> (r, v) \<in> E\<^sup>* \<and> (a, v) \<in> E ^^ nat k \<and>
        hops E r v = hops E r a + nat k}"
  then consider "e = (r, r, 0)" | a v k where "e = (a, v, k)" "1 \<le> k" "(r, a) \<in> E\<^sup>*"
      "(r, v) \<in> E\<^sup>*" "(a, v) \<in> E ^^ nat k" "hops E r v = hops E r a + nat k"
    by auto
  then show "e \<in> set es"
  proof cases
    case 1
    with N show ?thesis unfolding entries_inv_def by simp
  next
    case 2
    from 2(2,6) have "hops E r v \<noteq> 0" by simp
    then have vr: "v \<noteq> r" using hops_self [of E r] by auto
    have "1 \<le> nat k \<and> nat k \<le> hops E r v" using 2(2,6) by simp
    with N 2(4) vr obtain b where "(b, v, int (nat k)) \<in> set es"
      unfolding entries_inv_def by blast
    with 2(2) have b: "(b, v, k) \<in> set es" by simp
    with N vr have "(r, b) \<in> E\<^sup>*" "(b, v) \<in> E ^^ nat k" "hops E r v = hops E r b + nat k"
      unfolding entries_inv_def by blast+
    from unique_ancestor [OF U 2(3) this(1) 2(5) this(2) 2(6) this(3)] have "a = b" .
    with b 2(1) show ?thesis by simp
  qed
qed

lemma entries_inv_same_graph:
  assumes "entries_inv E r (E\<^sup>* `` {r}) es1" "entries_inv E r (E\<^sup>* `` {r}) es2"
  shows "{e \<in> set es1. fst e = r} = {e \<in> set es2. fst e = r} \<and>
         (unique_parent E r \<longrightarrow> set es1 = set es2)"
  using entries_inv_root_part [OF assms(1)] entries_inv_root_part [OF assms(2)]
    entries_inv_unique_set [OF assms(1)] entries_inv_unique_set [OF assms(2)]
  by simp

text \<open>A graph with unique simple paths from the root has unique parents.\<close>

lemma walk_snoc: "walk E xs \<Longrightarrow> (last xs, v) \<in> E \<Longrightarrow> walk E (xs @ [v])"
  by (induction E xs rule: walk.induct) auto

lemma shortest_walk:
  "(r, w) \<in> E\<^sup>* \<Longrightarrow>
     \<exists>xs. walk E xs \<and> hd xs = r \<and> last xs = w \<and> length xs = Suc (hops E r w) \<and>
          (\<forall>i<length xs. (r, xs ! i) \<in> E\<^sup>* \<and> hops E r (xs ! i) = i)"
proof (induction "hops E r w" arbitrary: w)
  case 0
  then have "w = r" using hops_zero by metis
  then have "walk E [r] \<and> hd [r] = r \<and> last [r] = w \<and> length [r] = Suc (hops E r w) \<and>
          (\<forall>i<length [r]. (r, [r] ! i) \<in> E\<^sup>* \<and> hops E r ([r] ! i) = i)"
    by (simp add: hops_self)
  then show ?case by blast
next
  case (Suc m)
  then have "w \<noteq> r" using hops_self [of E r] by auto
  from hops_pred [OF Suc.prems this] obtain p where p: "(r, p) \<in> E\<^sup>*" "(p, w) \<in> E"
    "hops E r w = Suc (hops E r p)" by blast
  with Suc.hyps(2) have "m = hops E r p" by simp
  from Suc.hyps(1) [OF this p(1)] obtain xs where xs: "walk E xs" "hd xs = r" "last xs = p"
    "length xs = Suc (hops E r p)"
    "\<And>i. i < length xs \<Longrightarrow> (r, xs ! i) \<in> E\<^sup>* \<and> hops E r (xs ! i) = i" by blast
  from xs(4) have ne: "xs \<noteq> []" by auto
  have 1: "walk E (xs @ [w])" using xs(1,3) p(2) by (simp add: walk_snoc)
  have 2: "hd (xs @ [w]) = r" using ne xs(2) by simp
  have 3: "length (xs @ [w]) = Suc (hops E r w)" using xs(4) p(3) by simp
  have 4: "(r, (xs @ [w]) ! i) \<in> E\<^sup>* \<and> hops E r ((xs @ [w]) ! i) = i" if "i < length (xs @ [w])" for i
  proof (cases "i < length xs")
    case True
    with xs(5) [OF True] show ?thesis by (simp add: nth_append)
  next
    case False
    with that have "i = length xs" by simp
    then show ?thesis using Suc.prems xs(4) p(3) by (simp add: nth_append)
  qed
  from 1 2 3 4 have "walk E (xs @ [w]) \<and> hd (xs @ [w]) = r \<and> last (xs @ [w]) = w \<and>
      length (xs @ [w]) = Suc (hops E r w) \<and>
      (\<forall>i<length (xs @ [w]). (r, (xs @ [w]) ! i) \<in> E\<^sup>* \<and> hops E r ((xs @ [w]) ! i) = i)"
    by simp
  then show ?case by blast
qed

lemma unique_paths_unique_parent:
  assumes U: "unique_paths E r"
  shows "unique_parent E r"
  unfolding unique_parent_def
proof (intro allI impI)
  fix v p q
  assume a: "(r, p) \<in> E\<^sup>* \<and> (r, q) \<in> E\<^sup>* \<and> (p, v) \<in> E \<and> (q, v) \<in> E \<and>
        hops E r v = Suc (hops E r p) \<and> hops E r v = Suc (hops E r q)"
  have ext: "\<exists>xs. walk E (xs @ [v]) \<and> distinct (xs @ [v]) \<and> hd (xs @ [v]) = r \<and> xs \<noteq> [] \<and> last xs = u"
    if u: "(r, u) \<in> E\<^sup>*" "(u, v) \<in> E" "hops E r v = Suc (hops E r u)" for u
  proof -
    from shortest_walk [OF u(1)] obtain xs where xs: "walk E xs" "hd xs = r" "last xs = u"
      "length xs = Suc (hops E r u)"
      "\<And>i. i < length xs \<Longrightarrow> hops E r (xs ! i) = i" by blast
    from xs(4) have ne: "xs \<noteq> []" by auto
    have d: "distinct xs"
      unfolding distinct_conv_nth using xs(5) by metis
    have "v \<notin> set xs"
    proof
      assume "v \<in> set xs"
      then obtain i where "i < length xs" "xs ! i = v" by (auto simp: in_set_conv_nth)
      with xs(5) [of i] xs(4) u(3) show False by simp
    qed
    with d xs(1,2,3) ne u(2) have "walk E (xs @ [v]) \<and> distinct (xs @ [v]) \<and>
        hd (xs @ [v]) = r \<and> xs \<noteq> [] \<and> last xs = u"
      by (simp add: walk_snoc)
    then show ?thesis by blast
  qed
  from a ext [of p] obtain xs where xs: "walk E (xs @ [v])" "distinct (xs @ [v])"
    "hd (xs @ [v]) = r" "xs \<noteq> []" "last xs = p" by blast
  from a ext [of q] obtain ys where ys: "walk E (ys @ [v])" "distinct (ys @ [v])"
    "hd (ys @ [v]) = r" "ys \<noteq> []" "last ys = q" by blast
  from U xs(1,2,3) ys(1,2,3) have "xs @ [v] = ys @ [v]"
    unfolding unique_paths_def by (metis last_snoc)
  then have "xs = ys" by simp
  with xs(5) ys(5) show "p = q" by simp
qed

lemma star_a_run:
  "NetworkXAdapter_bfs_traversal star_a 1 = Some (Inr [(1, 1, 0), (1, 2, 1), (1, 3, 1)])"
  by code_simp

lemma star_b_run:
  "NetworkXAdapter_bfs_traversal star_b 1 = Some (Inr [(1, 1, 0), (1, 3, 1), (1, 2, 1)])"
  by code_simp

lemma star_a_edges: "NX_edges star_a = {(1, 2), (1, 3), (2, 1), (3, 1)}"
proof -
  have "nx_adj (graph star_a) = [(1, [(2, []), (3, [])]), (2, [(1, [])]), (3, [(1, [])])]"
    by code_simp
  then show ?thesis by (auto simp: NX_edges_iff split: if_splits)
qed

lemma star_b_edges: "NX_edges star_b = {(1, 2), (1, 3), (2, 1), (3, 1)}"
proof -
  have "nx_adj (graph star_b) = [(1, [(3, []), (2, [])]), (3, [(1, [])]), (2, [(1, [])])]"
    by code_simp
  then show ?thesis by (auto simp: NX_edges_iff split: if_splits)
qed

lemma star_unique_parent: "unique_parent {(1, 2), (1, 3), (2, 1), (3, 1)} 1"
  unfolding unique_parent_def by (auto simp: hops_self)

lemma square_a_edges:
  "NX_edges square_a = {(1, 2), (1, 3), (2, 1), (2, 4), (3, 1), (3, 4), (4, 2), (4, 3)}"
proof -
  have "nx_adj (graph square_a) =
      [(1, [(2, []), (3, [])]), (2, [(1, []), (4, [])]), (3, [(1, []), (4, [])]),
       (4, [(2, []), (3, [])])]"
    by code_simp
  then show ?thesis by (auto simp: NX_edges_iff split: if_splits)
qed

lemma square_b_edges:
  "NX_edges square_b = {(1, 2), (1, 3), (2, 1), (2, 4), (3, 1), (3, 4), (4, 2), (4, 3)}"
proof -
  have "nx_adj (graph square_b) =
      [(1, [(3, []), (2, [])]), (3, [(1, []), (4, [])]), (2, [(1, []), (4, [])]),
       (4, [(2, []), (3, [])])]"
    by code_simp
  then show ?thesis by (auto simp: NX_edges_iff split: if_splits)
qed

text \<open>
  Claim C4 as stated fails.  The two squares have the same edges; node 1 lists its
  neighbours as 2, 3 in one and as 3, 2 in the other.  Node 4 is then discovered from node 2
  in the first traversal and from node 3 in the second, and the entry sets differ.
\<close>

theorem bfs_traversal_neighbor_order_counterexample:
  "NX_edges square_a = NX_edges square_b \<and>
   NetworkXAdapter_get_neighbors square_a 1 = Inr [2, 3] \<and>
   NetworkXAdapter_get_neighbors square_b 1 = Inr [3, 2] \<and>
   NetworkXAdapter_bfs_traversal square_a 1 =
     Some (Inr [(1, 1, 0), (1, 2, 1), (1, 3, 1), (2, 4, 1), (1, 4, 2)]) \<and>
   NetworkXAdapter_bfs_traversal square_b 1 =
     Some (Inr [(1, 1, 0), (1, 3, 1), (1, 2, 1), (3, 4, 1), (1, 4, 2)]) \<and>
   set [(1, 1, 0), (1, 2, 1), (1, 3, 1), (2, 4, 1), (1, 4, 2)] \<noteq>
     set [(1, 1, 0), (1, 3, 1), (1, 2, 1), (3, 4, 1), (1, 4, 2) :: entry]"
proof -
  have 1: "NetworkXAdapter_get_neighbors square_a 1 = Inr [2, 3]" by code_simp
  have 2: "NetworkXAdapter_get_neighbors square_b 1 = Inr [3, 2]" by code_simp
  have 3: "NetworkXAdapter_bfs_traversal square_a 1 =
     Some (Inr [(1, 1, 0), (1, 2, 1), (1, 3, 1), (2, 4, 1), (1, 4, 2)])" by code_simp
  have 4: "NetworkXAdapter_bfs_traversal square_b 1 =
     Some (Inr [(1, 1, 0), (1, 3, 1), (1, 2, 1), (3, 4, 1), (1, 4, 2)])" by code_simp
  have 5: "set [(1, 1, 0), (1, 2, 1), (1, 3, 1), (2, 4, 1), (1, 4, 2)] \<noteq>
     set [(1, 1, 0), (1, 3, 1), (1, 2, 1), (3, 4, 1), (1, 4, 2) :: entry]"
  proof
    assume "set [(1, 1, 0), (1, 2, 1), (1, 3, 1), (2, 4, 1), (1, 4, 2)] =
     set [(1, 1, 0), (1, 3, 1), (1, 2, 1), (3, 4, 1), (1, 4, 2) :: entry]"
    moreover have "(2, 4, 1) \<in> set [(1, 1, 0), (1, 2, 1), (1, 3, 1), (2, 4, 1), (1, 4, 2) :: entry]"
      by simp
    ultimately have "(2, 4, 1) \<in> set [(1, 1, 0), (1, 3, 1), (1, 2, 1), (3, 4, 1), (1, 4, 2) :: entry]"
      by (simp only:)
    then show False by simp
  qed
  from 1 2 3 4 5 square_a_edges square_b_edges show ?thesis by simp
qed

text \<open>
  Claim C4, amended.  Two traversals from the same root of graphs with the same edges
  (the neighbours of each node enumerated in any two orders) return the same entries with
  the root as ancestor; and they return the same set of entries altogether when no node
  has two neighbours one hop nearer to the root, as in a tree.
\<close>

theorem bfs_traversal_neighbor_order:
  "(Manual_edges m1 = Manual_edges m2 \<longrightarrow>
      (\<exists>es1 es2. ManualNetworkAdapter_bfs_traversal m1 start = Some (Inr es1) \<and>
         ManualNetworkAdapter_bfs_traversal m2 start = Some (Inr es2) \<and>
         {e \<in> set es1. fst e = start} = {e \<in> set es2. fst e = start} \<and>
         (unique_parent (Manual_edges m1) start \<longrightarrow> set es1 = set es2))) \<and>
   (NX_edges x1 = NX_edges x2 \<and> nx_ok (graph x1) \<and> nx_ok (graph x2) \<and>
    start \<in> set (NetworkXAdapter_get_nodes x1) \<and> start \<in> set (NetworkXAdapter_get_nodes x2) \<longrightarrow>
      (\<exists>es1 es2. NetworkXAdapter_bfs_traversal x1 start = Some (Inr es1) \<and>
         NetworkXAdapter_bfs_traversal x2 start = Some (Inr es2) \<and>
         {e \<in> set es1. fst e = start} = {e \<in> set es2. fst e = start} \<and>
         (unique_parent (NX_edges x1) start \<longrightarrow> set es1 = set es2)))"
proof (intro conjI impI)
  assume e: "Manual_edges m1 = Manual_edges m2"
  from Manual_bfs_total [of m1 start] Manual_bfs_total [of m2 start] e
  obtain es1 es2 where r: "ManualNetworkAdapter_bfs_traversal m1 start = Some (Inr es1)"
    "ManualNetworkAdapter_bfs_traversal m2 start = Some (Inr es2)"
    and i: "entries_inv (Manual_edges m1) start ((Manual_edges m1)\<^sup>* `` {start}) es1"
    "entries_inv (Manual_edges m1) start ((Manual_edges m1)\<^sup>* `` {start}) es2"
    by auto
  from entries_inv_same_graph [OF i] r
  show "\<exists>es1 es2. ManualNetworkAdapter_bfs_traversal m1 start = Some (Inr es1) \<and>
         ManualNetworkAdapter_bfs_traversal m2 start = Some (Inr es2) \<and>
         {e \<in> set es1. fst e = start} = {e \<in> set es2. fst e = start} \<and>
         (unique_parent (Manual_edges m1) start \<longrightarrow> set es1 = set es2)"
    by blast
next
  assume a: "NX_edges x1 = NX_edges x2 \<and> nx_ok (graph x1) \<and> nx_ok (graph x2) \<and>
    start \<in> set (NetworkXAdapter_get_nodes x1) \<and> start \<in> set (NetworkXAdapter_get_nodes x2)"
  from NX_bfs_total [of x1 start] NX_bfs_total [of x2 start] a
  obtain es1 es2 where r: "NetworkXAdapter_bfs_traversal x1 start = Some (Inr es1)"
    "NetworkXAdapter_bfs_traversal x2 start = Some (Inr es2)"
    and i: "entries_inv (NX_edges x1) start ((NX_edges x1)\<^sup>* `` {start}) es1"
    "entries_inv (NX_edges x1) start ((NX_edges x1)\<^sup>* `` {start}) es2"
    by auto
  from entries_inv_same_graph [OF i] r
  show "\<exists>es1 es2. NetworkXAdapter_bfs_traversal x1 start = Some (Inr es1) \<and>
         NetworkXAdapter_bfs_traversal x2 start = Some (Inr es2) \<and>
         {e \<in> set es1. fst e = start} = {e \<in> set es2. fst e = start} \<and>
         (unique_parent (NX_edges x1) start \<longrightarrow> set es1 = set es2)"
    by blast
qed

text \<open>
  The two stars have the same edges and unique parents; node 1 lists its neighbours as
  2, 3 in one and as 3, 2 in the other.  The two traversals return different lists with
  the same set of entries.
\<close>

theorem bfs_traversal_neighbor_order_witness:
  "Manual_edges ManualNetworkAdapter_init = Manual_edges ManualNetworkAdapter_init \<and>
   unique_parent (Manual_edges ManualNetworkAdapter_init) 1 \<and>
   NX_edges star_a = NX_edges star_b \<and> nx_ok (graph star_a) \<and> nx_ok (graph star_b) \<and>
   1 \<in> set (NetworkXAdapter_get_nodes star_a) \<and> 1 \<in> set (NetworkXAdapter_get_nodes star_b) \<and>
   unique_parent (NX_edges star_a) 1 \<and>
   NetworkXAdapter_get_neighbors star_a 1 = Inr [2, 3] \<and>
   NetworkXAdapter_get_neighbors star_b 1 = Inr [3, 2] \<and>
   (\<exists>es1 es2. NetworkXAdapter_bfs_traversal star_a 1 = Some (Inr es1) \<and>
      NetworkXAdapter_bfs_traversal star_b 1 = Some (Inr es2) \<and> es1 \<noteq> es2 \<and> set es1 = set es2)"
proof -
  have m: "unique_parent (Manual_edges ManualNetworkAdapter_init) 1"
    by (simp add: unique_parent_def Manual_edges_iff ManualNetworkAdapter_get_neighbors_def
        ManualNetworkAdapter_init_def)
  have e: "NX_edges star_a = NX_edges star_b" by (simp add: star_a_edges star_b_edges)
  have oa: "nx_ok (graph star_a)" by (simp add: star_a_def NetworkXAdapter_ok)
  have ob: "nx_ok (graph star_b)" by (simp add: star_b_def NetworkXAdapter_ok)
  have ra: "1 \<in> set (NetworkXAdapter_get_nodes star_a)" by code_simp
  have rb: "1 \<in> set (NetworkXAdapter_get_nodes star_b)" by code_simp
  have u: "unique_parent (NX_edges star_a) 1" by (simp add: star_a_edges star_unique_parent)
  have na: "NetworkXAdapter_get_neighbors star_a 1 = Inr [2, 3]" by code_simp
  have nb: "NetworkXAdapter_get_neighbors star_b 1 = Inr [3, 2]" by code_simp
  from bfs_traversal_neighbor_order
    [of ManualNetworkAdapter_init ManualNetworkAdapter_init 1 star_a star_b] e oa ob ra rb u
  obtain es1 es2 where r: "NetworkXAdapter_bfs_traversal star_a 1 = Some (Inr es1)"
    "NetworkXAdapter_bfs_traversal star_b 1 = Some (Inr es2)" "set es1 = set es2" by blast
  from r(1) have e1: "es1 = [(1, 1, 0), (1, 2, 1), (1, 3, 1)]" by (simp add: star_a_run)
  from r(2) have e2: "es2 = [(1, 1, 0), (1, 3, 1), (1, 2, 1)]" by (simp add: star_b_run)
  have "es1 \<noteq> es2" unfolding e1 e2 by simp
  with m e oa ob ra rb u na nb r show ?thesis by blast
qed

section \<open>The graph operations\<close>

lemma map_of_Some_key: "map_of al k = Some v \<Longrightarrow> k \<in> fst ` set al"
  by (force dest: map_of_SomeD)

lemma set_add_idem: "set_add x (set_add x s) = set_add x s"
  by (simp add: set_add_def)

lemma set_add_mem: "x \<in> set (set_add x s)"
  by (simp add: set_add_def)

lemma ensure_edges_keys: "fst ` set (edges (ensure_edges n g)) = insert n (fst ` set (edges g))"
  by (auto simp: ensure_edges_def keys_update)

lemma ensure_edges_id: "n \<in> fst ` set (edges g) \<Longrightarrow> ensure_edges n g = g"
  by (simp add: ensure_edges_def)

lemma edges_add_keys: "fst ` set (edges (edges_add a b g)) = fst ` set (edges g)"
  unfolding edges_add_def by (simp del: set_map add: keys_map_row)

lemma Manual_add_edge_keys:
  "a \<in> fst ` set (edges (ManualNetworkAdapter_add_edge g a b attrs)) \<and>
   b \<in> fst ` set (edges (ManualNetworkAdapter_add_edge g a b attrs))"
  by (simp add: ManualNetworkAdapter_add_edge_def edges_add_keys ensure_edges_keys)

lemma rows_again:
  assumes "(c, d) = (a, b) \<or> (c, d) = (b, a)"
  shows "(\<lambda>(k, s). if k = d then (k, set_add c s) else (k, s)) \<circ>
     ((\<lambda>(k, s). if k = c then (k, set_add d s) else (k, s)) \<circ>
      ((\<lambda>(k, s). if k = b then (k, set_add a s) else (k, s)) \<circ>
       (\<lambda>(k, s). if k = a then (k, set_add b s) else (k, s)))) =
     (\<lambda>(k, s). if k = b then (k, set_add a s) else (k, s)) \<circ>
     (\<lambda>(k, s). if k = a then (k, set_add b s) else (k, s))"
  using assms by (auto simp: fun_eq_iff set_add_idem)

lemma Manual_add_edge_again:
  assumes "(c, d) = (a, b) \<or> (c, d) = (b, a)"
  shows "ManualNetworkAdapter_add_edge (ManualNetworkAdapter_add_edge g a b attrs) c d attrs' =
         ManualNetworkAdapter_add_edge g a b attrs"
proof -
  let ?g1 = "ManualNetworkAdapter_add_edge g a b attrs"
  let ?g0 = "ensure_edges b (ensure_edges a g)"
  have g1: "?g1 = edges_add b a (edges_add a b ?g0)" by (simp add: ManualNetworkAdapter_add_edge_def)
  from assms Manual_add_edge_keys [where a = a and b = b and g = g and attrs = attrs]
  have "c \<in> fst ` set (edges ?g1)" "d \<in> fst ` set (edges ?g1)" by auto
  then have "ensure_edges d (ensure_edges c ?g1) = ?g1" by (simp add: ensure_edges_id)
  then have "ManualNetworkAdapter_add_edge ?g1 c d attrs' = edges_add d c (edges_add c d ?g1)"
    by (simp add: ManualNetworkAdapter_add_edge_def)
  also have "\<dots> = ?g1"
    unfolding g1 by (simp add: edges_add_def rows_again [OF assms])
  finally show ?thesis .
qed

lemma edges_add_row:
  "map_of (edges (edges_add a b g)) n =
     map_option (\<lambda>s. if n = a then set_add b s else s) (map_of (edges g) n)"
  by (simp add: edges_add_def map_of_map_row)

lemma Manual_add_edge_neighbors:
  "b \<in> set (ManualNetworkAdapter_get_neighbors (ManualNetworkAdapter_add_edge g a b attrs) a) \<and>
   a \<in> set (ManualNetworkAdapter_get_neighbors (ManualNetworkAdapter_add_edge g a b attrs) b)"
proof -
  let ?g0 = "ensure_edges b (ensure_edges a g)"
  have k: "a \<in> fst ` set (edges ?g0)" "b \<in> fst ` set (edges ?g0)"
    by (simp_all add: ensure_edges_keys)
  then obtain ra rb where r: "map_of (edges ?g0) a = Some ra" "map_of (edges ?g0) b = Some rb"
    by (metis map_of_eq_None_iff not_Some_eq)
  show ?thesis
    using r
    by (auto simp: ManualNetworkAdapter_get_neighbors_def ManualNetworkAdapter_add_edge_def
        edges_add_row set_add_mem set_add_def)
qed

lemma nx_set_edge_row:
  "map_of (nx_adj (nx_set_edge u v d G)) n =
     map_option (\<lambda>row. if n = u then AList.update v d row else row) (map_of (nx_adj G) n)"
  by (simp add: nx_set_edge_def map_of_map_row)

lemma nx_ensure_node_id: "n \<in> fst ` set (nx_node G) \<Longrightarrow> nx_ensure_node n G = G"
  by (simp add: nx_ensure_node_def)

lemma nx_add_edge_nodes:
  "u \<in> fst ` set (nx_node (nx_add_edge u v attr G)) \<and>
   v \<in> fst ` set (nx_node (nx_add_edge u v attr G))"
  by (simp add: nx_add_edge_def Let_def nx_set_edge_keys nx_ensure_node_keys)

lemma nx_add_edge_row:
  "map_of (nx_adj (nx_add_edge u v attr G)) n = Some row \<Longrightarrow>
     (n = u \<longrightarrow> v \<in> fst ` set row) \<and> (n = v \<longrightarrow> u \<in> fst ` set row)"
  by (auto simp: nx_add_edge_def Let_def nx_set_edge_row keys_update)

lemma keys_update_present: "k \<in> fst ` set al \<Longrightarrow> map fst (AList.update k v al) = map fst al"
  by (simp add: update_keys)

lemma nx_add_edge_again:
  assumes "(c, d) = (a, b) \<or> (c, d) = (b, a)"
  shows "nx_neighbors (nx_add_edge c d attrs' (nx_add_edge a b attrs G)) n =
         nx_neighbors (nx_add_edge a b attrs G) n \<and>
         nx_nodes (nx_add_edge c d attrs' (nx_add_edge a b attrs G)) =
         nx_nodes (nx_add_edge a b attrs G)"
proof -
  let ?G1 = "nx_add_edge a b attrs G"
  from assms nx_add_edge_nodes [where u = a and v = b and attr = attrs and G = G]
  have "c \<in> fst ` set (nx_node ?G1)" "d \<in> fst ` set (nx_node ?G1)" by auto
  then have e: "nx_ensure_node d (nx_ensure_node c ?G1) = ?G1" by (simp add: nx_ensure_node_id)
  obtain dd where G2: "nx_add_edge c d attrs' ?G1 = nx_set_edge d c dd (nx_set_edge c d dd ?G1)"
    by (simp add: nx_add_edge_def [of c d attrs' ?G1] Let_def e)
  have nodes: "nx_nodes (nx_add_edge c d attrs' ?G1) = nx_nodes ?G1"
    unfolding G2 by (simp add: nx_nodes_def nx_set_edge_keys)
  have "nx_neighbors (nx_add_edge c d attrs' ?G1) n = nx_neighbors ?G1 n"
  proof (cases "map_of (nx_adj ?G1) n")
    case None
    then show ?thesis unfolding G2 by (simp add: nx_neighbors_def nx_set_edge_row)
  next
    case (Some row)
    from nx_add_edge_row [OF Some] assms
    have "(n = c \<longrightarrow> d \<in> fst ` set row) \<and> (n = d \<longrightarrow> c \<in> fst ` set row)" by auto
    then show ?thesis unfolding G2 using Some
      by (auto simp: nx_neighbors_def nx_set_edge_row keys_update_present keys_update)
  qed
  with nodes show ?thesis by simp
qed

text \<open>
  What one \<^verbatim>\<open>add_edge\<close> does to the neighbours of each node.  A neighbour set of the manual
  adapter and a row of \<^verbatim>\<open>_adj\<close> gain the other endpoint if they do not hold it, and nothing
  else changes.
\<close>

lemma set_add_set: "set (set_add x s) = insert x (set s)"
  by (auto simp: set_add_def)

lemma set_add_distinct: "distinct s \<Longrightarrow> distinct (set_add x s)"
  by (simp add: set_add_def)

lemma count_list_distinct: "distinct xs \<Longrightarrow> x \<in> set xs \<Longrightarrow> count_list xs x = 1"
  by (induction xs) auto

lemma ensure_edges_neighbors:
  "ManualNetworkAdapter_get_neighbors (ensure_edges k g) n = ManualNetworkAdapter_get_neighbors g n"
  by (auto simp: ManualNetworkAdapter_get_neighbors_def ensure_edges_def update_conv'
      map_of_eq_None_iff split: option.splits dest: map_of_Some_key)

lemma edges_add_neighbors:
  assumes "a \<in> fst ` set (edges g)"
  shows "ManualNetworkAdapter_get_neighbors (edges_add a b g) n =
     (if n = a then set_add b (ManualNetworkAdapter_get_neighbors g n)
      else ManualNetworkAdapter_get_neighbors g n)"
proof -
  from assms obtain r where "map_of (edges g) a = Some r"
    by (metis map_of_eq_None_iff not_Some_eq)
  then show ?thesis
    by (cases "map_of (edges g) n")
      (auto simp: ManualNetworkAdapter_get_neighbors_def edges_add_row)
qed

lemma Manual_add_edge_effect:
  "ManualNetworkAdapter_get_neighbors (ManualNetworkAdapter_add_edge g a b attrs) n =
     (if n = b then set_add a else id)
       ((if n = a then set_add b else id) (ManualNetworkAdapter_get_neighbors g n))"
proof -
  let ?g0 = "ensure_edges b (ensure_edges a g)"
  have k: "a \<in> fst ` set (edges ?g0)" "b \<in> fst ` set (edges (edges_add a b ?g0))"
    by (simp_all add: ensure_edges_keys edges_add_keys)
  show ?thesis
    unfolding ManualNetworkAdapter_add_edge_def
    by (simp add: edges_add_neighbors [OF k(2)] edges_add_neighbors [OF k(1)]
        ensure_edges_neighbors)
qed

lemma nx_ensure_node_neighbors:
  assumes "fst ` set (nx_node G) = fst ` set (nx_adj G)"
  shows "nx_neighbors (nx_ensure_node k G) n =
     (if n = k \<and> k \<notin> fst ` set (nx_node G) then Inr [] else nx_neighbors G n)"
  using assms
  by (auto simp: nx_neighbors_def nx_ensure_node_def update_conv')

lemma nx_set_edge_neighbors:
  "nx_neighbors (nx_set_edge u v d G) n =
     (case nx_neighbors G n of Inl e \<Rightarrow> Inl e
      | Inr l \<Rightarrow> Inr (if n = u then set_add v l else l))"
  by (cases "map_of (nx_adj G) n")
    (auto simp: nx_neighbors_def nx_set_edge_row update_keys set_add_def)

lemma nx_neighbors_absent:
  assumes "fst ` set (nx_node G) = fst ` set (nx_adj G)"
  shows "(nx_neighbors G n = Inl NetworkXError \<and> n \<notin> set (nx_nodes G)) \<or>
         (\<exists>l. nx_neighbors G n = Inr l \<and> n \<in> set (nx_nodes G))"
proof (cases "map_of (nx_adj G) n")
  case None
  then have "n \<notin> fst ` set (nx_adj G)" by (simp add: map_of_eq_None_iff)
  with assms None show ?thesis by (simp add: nx_neighbors_def nx_nodes_def)
next
  case (Some row)
  then have "n \<in> fst ` set (nx_adj G)" by (rule map_of_Some_key)
  with assms Some show ?thesis by (simp add: nx_neighbors_def nx_nodes_def)
qed

lemma nx_add_edge_effect:
  assumes s: "fst ` set (nx_node G) = fst ` set (nx_adj G)"
  shows "nx_neighbors (nx_add_edge a b attrs G) n =
     (if n = a \<or> n = b \<or> n \<in> set (nx_nodes G)
      then Inr ((if n = b then set_add a else id)
                 ((if n = a then set_add b else id) (adjacency (nx_neighbors G) n)))
      else Inl NetworkXError)"
proof -
  let ?G1 = "nx_ensure_node a G"
  let ?G2 = "nx_ensure_node b ?G1"
  have s1: "fst ` set (nx_node ?G1) = fst ` set (nx_adj ?G1)"
    using s by (auto simp: nx_ensure_node_def keys_update)
  obtain dd where e: "nx_add_edge a b attrs G = nx_set_edge b a dd (nx_set_edge a b dd ?G2)"
    by (simp add: nx_add_edge_def Let_def)
  have n2: "nx_neighbors ?G2 n =
     (if n = a \<or> n = b \<or> n \<in> set (nx_nodes G) then Inr (adjacency (nx_neighbors G) n)
      else Inl NetworkXError)"
    using nx_neighbors_absent [OF s, of n]
    by (auto simp: nx_ensure_node_neighbors [OF s1] nx_ensure_node_neighbors [OF s]
        nx_ensure_node_keys adjacency_def nx_nodes_def)
  show ?thesis
    unfolding e by (simp add: nx_set_edge_neighbors n2)
qed

lemma nx_ensure_node_nodes: "nx_nodes (nx_ensure_node k G) = set_add k (nx_nodes G)"
  by (simp add: nx_nodes_def nx_ensure_node_def update_keys set_add_def)

lemma nx_set_edge_nodes: "nx_nodes (nx_set_edge u v d G) = nx_nodes G"
  by (simp add: nx_nodes_def nx_set_edge_def)

lemma nx_add_edge_node_list:
  "nx_nodes (nx_add_edge a b attrs G) = set_add b (set_add a (nx_nodes G))"
  by (simp add: nx_add_edge_def Let_def nx_set_edge_nodes nx_ensure_node_nodes)

lemma Manual_add_edge_edges:
  "Manual_edges (ManualNetworkAdapter_add_edge m a b attrs) =
     insert (a, b) (insert (b, a) (Manual_edges m))"
  by (auto simp: Manual_edges_iff Manual_add_edge_effect set_add_set split: if_splits)

lemma Manual_add_edge_once:
  assumes "\<forall>n. distinct (ManualNetworkAdapter_get_neighbors m n)"
  shows "(\<forall>n. distinct (ManualNetworkAdapter_get_neighbors (ManualNetworkAdapter_add_edge m a b attrs) n)) \<and>
     count_list (ManualNetworkAdapter_get_neighbors (ManualNetworkAdapter_add_edge m a b attrs) a) b = 1 \<and>
     count_list (ManualNetworkAdapter_get_neighbors (ManualNetworkAdapter_add_edge m a b attrs) b) a = 1"
proof -
  let ?m = "ManualNetworkAdapter_add_edge m a b attrs"
  have d: "distinct (ManualNetworkAdapter_get_neighbors ?m n)" for n
    using assms by (simp add: Manual_add_edge_effect set_add_distinct)
  from d [of a] d [of b] Manual_add_edge_neighbors [of b m a attrs] d
  show ?thesis by (simp add: count_list_distinct)
qed

lemma NX_add_edge_effect:
  assumes "nx_ok (graph x)"
  shows "NetworkXAdapter_get_neighbors (NetworkXAdapter_add_edge x a b attrs) n =
     (if n = a \<or> n = b \<or> n \<in> set (NetworkXAdapter_get_nodes x)
      then Inr ((if n = b then set_add a else id)
                 ((if n = a then set_add b else id) (adjacency (NetworkXAdapter_get_neighbors x) n)))
      else Inl NetworkXError)"
proof -
  from assms have s: "fst ` set (nx_node (graph x)) = fst ` set (nx_adj (graph x))"
    by (simp add: nx_ok_def)
  have f: "NetworkXAdapter_get_neighbors x = nx_neighbors (graph x)"
    by (simp add: fun_eq_iff NetworkXAdapter_get_neighbors_def)
  show ?thesis
    unfolding f
    by (simp add: NetworkXAdapter_get_neighbors_def NetworkXAdapter_add_edge_def
        NetworkXAdapter_get_nodes_def nx_add_edge_effect [OF s])
qed

lemma NX_add_edge_neighbors:
  assumes "nx_ok (graph x)"
  shows "\<exists>la lb. NetworkXAdapter_get_neighbors (NetworkXAdapter_add_edge x a b attrs) a = Inr la \<and>
     b \<in> set la \<and>
     NetworkXAdapter_get_neighbors (NetworkXAdapter_add_edge x a b attrs) b = Inr lb \<and> a \<in> set lb"
  by (simp add: NX_add_edge_effect [OF assms] set_add_set)

lemma NX_add_edge_adjacency:
  assumes "nx_ok (graph x)"
  shows "adjacency (NetworkXAdapter_get_neighbors (NetworkXAdapter_add_edge x a b attrs)) n =
     (if n = b then set_add a else id)
       ((if n = a then set_add b else id) (adjacency (NetworkXAdapter_get_neighbors x) n))"
proof -
  from assms have s: "fst ` set (nx_node (graph x)) = fst ` set (nx_adj (graph x))"
    by (simp add: nx_ok_def)
  from nx_neighbors_absent [OF s, of n]
  have "n \<notin> set (NetworkXAdapter_get_nodes x) \<Longrightarrow> adjacency (NetworkXAdapter_get_neighbors x) n = []"
    by (auto simp: adjacency_def NetworkXAdapter_get_neighbors_def NetworkXAdapter_get_nodes_def)
  then show ?thesis
    unfolding adjacency_def [of "NetworkXAdapter_get_neighbors (NetworkXAdapter_add_edge x a b attrs)"]
    by (simp add: NX_add_edge_effect [OF assms])
qed

lemma NX_add_edge_edges:
  assumes "nx_ok (graph x)"
  shows "NX_edges (NetworkXAdapter_add_edge x a b attrs) = insert (a, b) (insert (b, a) (NX_edges x))"
  by (auto simp: NX_edges_def edge_rel_def NX_add_edge_adjacency [OF assms] set_add_set
      split: if_splits)

lemma NX_add_edge_once:
  assumes "nx_ok (graph x)" "\<forall>n. distinct (adjacency (NetworkXAdapter_get_neighbors x) n)"
  shows "(\<forall>n. distinct (adjacency (NetworkXAdapter_get_neighbors (NetworkXAdapter_add_edge x a b attrs)) n)) \<and>
     count_list (adjacency (NetworkXAdapter_get_neighbors (NetworkXAdapter_add_edge x a b attrs)) a) b = 1 \<and>
     count_list (adjacency (NetworkXAdapter_get_neighbors (NetworkXAdapter_add_edge x a b attrs)) b) a = 1"
proof -
  let ?x = "NetworkXAdapter_add_edge x a b attrs"
  have d: "distinct (adjacency (NetworkXAdapter_get_neighbors ?x) n)" for n
    using assms(2) by (simp add: NX_add_edge_adjacency [OF assms(1)] set_add_distinct)
  have "b \<in> set (adjacency (NetworkXAdapter_get_neighbors ?x) a)"
    "a \<in> set (adjacency (NetworkXAdapter_get_neighbors ?x) b)"
    by (simp_all add: NX_add_edge_adjacency [OF assms(1)] set_add_set)
  with d [of a] d [of b] d show ?thesis by (simp add: count_list_distinct)
qed

lemma NX_add_edge_node_set:
  "set (NetworkXAdapter_get_nodes (NetworkXAdapter_add_edge x a b attrs)) =
     insert a (insert b (set (NetworkXAdapter_get_nodes x)))"
  by (auto simp: NetworkXAdapter_get_nodes_def NetworkXAdapter_add_edge_def
      nx_add_edge_node_list set_add_set)

text \<open>
  Claim C9.  After \<^verbatim>\<open>add_edge(a, b)\<close>, a second \<^verbatim>\<open>add_edge(a, b)\<close> or an \<^verbatim>\<open>add_edge(b, a)\<close>
  changes nothing in the adjacency: the manual adapter is left in the very same state, and
  the NetworkX adapter lists the same nodes and, for every node, the same neighbours.  The
  first call adds exactly the one undirected edge: each endpoint becomes a neighbour of the
  other, the edges of the graph are the old ones and the pairs \<open>(a, b)\<close> and \<open>(b, a)\<close>, and
  where no neighbour list had a repetition none has one afterwards, so that \<open>b\<close> is listed
  once for \<open>a\<close> and \<open>a\<close> once for \<open>b\<close>.  For the NetworkX adapter this is stated of a well-formed
  graph, which is what the adapter's own operations build; its node list gains the two
  endpoints.
\<close>

theorem add_edge_idempotent:
  "ManualNetworkAdapter_add_edge (ManualNetworkAdapter_add_edge m a b attrs) a b attrs' =
     ManualNetworkAdapter_add_edge m a b attrs \<and>
   ManualNetworkAdapter_add_edge (ManualNetworkAdapter_add_edge m a b attrs) b a attrs' =
     ManualNetworkAdapter_add_edge m a b attrs \<and>
   b \<in> set (ManualNetworkAdapter_get_neighbors (ManualNetworkAdapter_add_edge m a b attrs) a) \<and>
   a \<in> set (ManualNetworkAdapter_get_neighbors (ManualNetworkAdapter_add_edge m a b attrs) b) \<and>
   Manual_edges (ManualNetworkAdapter_add_edge m a b attrs) =
     insert (a, b) (insert (b, a) (Manual_edges m)) \<and>
   ((\<forall>n. distinct (ManualNetworkAdapter_get_neighbors m n)) \<longrightarrow>
      (\<forall>n. distinct (ManualNetworkAdapter_get_neighbors (ManualNetworkAdapter_add_edge m a b attrs) n)) \<and>
      count_list (ManualNetworkAdapter_get_neighbors (ManualNetworkAdapter_add_edge m a b attrs) a) b = 1 \<and>
      count_list (ManualNetworkAdapter_get_neighbors (ManualNetworkAdapter_add_edge m a b attrs) b) a = 1) \<and>
   (\<forall>n. NetworkXAdapter_get_neighbors
          (NetworkXAdapter_add_edge (NetworkXAdapter_add_edge x a b attrs) a b attrs') n =
        NetworkXAdapter_get_neighbors (NetworkXAdapter_add_edge x a b attrs) n) \<and>
   (\<forall>n. NetworkXAdapter_get_neighbors
          (NetworkXAdapter_add_edge (NetworkXAdapter_add_edge x a b attrs) b a attrs') n =
        NetworkXAdapter_get_neighbors (NetworkXAdapter_add_edge x a b attrs) n) \<and>
   NetworkXAdapter_get_nodes (NetworkXAdapter_add_edge (NetworkXAdapter_add_edge x a b attrs) a b attrs')
     = NetworkXAdapter_get_nodes (NetworkXAdapter_add_edge x a b attrs) \<and>
   NetworkXAdapter_get_nodes (NetworkXAdapter_add_edge (NetworkXAdapter_add_edge x a b attrs) b a attrs')
     = NetworkXAdapter_get_nodes (NetworkXAdapter_add_edge x a b attrs) \<and>
   set (NetworkXAdapter_get_nodes (NetworkXAdapter_add_edge x a b attrs)) =
     insert a (insert b (set (NetworkXAdapter_get_nodes x))) \<and>
   (nx_ok (graph x) \<longrightarrow>
      (\<exists>la lb. NetworkXAdapter_get_neighbors (NetworkXAdapter_add_edge x a b attrs) a = Inr la \<and>
         b \<in> set la \<and>
         NetworkXAdapter_get_neighbors (NetworkXAdapter_add_edge x a b attrs) b = Inr lb \<and>
         a \<in> set lb) \<and>
      NX_edges (NetworkXAdapter_add_edge x a b attrs) = insert (a, b) (insert (b, a) (NX_edges x)) \<and>
      ((\<forall>n. distinct (adjacency (NetworkXAdapter_get_neighbors x) n)) \<longrightarrow>
         (\<forall>n. distinct (adjacency (NetworkXAdapter_get_neighbors (NetworkXAdapter_add_edge x a b attrs)) n)) \<and>
         count_list (adjacency (NetworkXAdapter_get_neighbors (NetworkXAdapter_add_edge x a b attrs)) a) b = 1 \<and>
         count_list (adjacency (NetworkXAdapter_get_neighbors (NetworkXAdapter_add_edge x a b attrs)) b) a = 1))"
proof -
  have again: "ManualNetworkAdapter_add_edge (ManualNetworkAdapter_add_edge m a b attrs) a b attrs' =
      ManualNetworkAdapter_add_edge m a b attrs"
    "ManualNetworkAdapter_add_edge (ManualNetworkAdapter_add_edge m a b attrs) b a attrs' =
      ManualNetworkAdapter_add_edge m a b attrs"
    using Manual_add_edge_again [of a b a b m attrs attrs']
      Manual_add_edge_again [of b a a b m attrs attrs'] by simp_all
  have xagain: "NetworkXAdapter_get_neighbors
          (NetworkXAdapter_add_edge (NetworkXAdapter_add_edge x a b attrs) a b attrs') n =
        NetworkXAdapter_get_neighbors (NetworkXAdapter_add_edge x a b attrs) n"
    "NetworkXAdapter_get_neighbors
          (NetworkXAdapter_add_edge (NetworkXAdapter_add_edge x a b attrs) b a attrs') n =
        NetworkXAdapter_get_neighbors (NetworkXAdapter_add_edge x a b attrs) n"
    "NetworkXAdapter_get_nodes (NetworkXAdapter_add_edge (NetworkXAdapter_add_edge x a b attrs) a b attrs')
      = NetworkXAdapter_get_nodes (NetworkXAdapter_add_edge x a b attrs)"
    "NetworkXAdapter_get_nodes (NetworkXAdapter_add_edge (NetworkXAdapter_add_edge x a b attrs) b a attrs')
      = NetworkXAdapter_get_nodes (NetworkXAdapter_add_edge x a b attrs)" for n
    using nx_add_edge_again [of a b a b attrs' attrs "graph x" n]
      nx_add_edge_again [of b a a b attrs' attrs "graph x" n]
    by (simp_all add: NetworkXAdapter_get_neighbors_def NetworkXAdapter_add_edge_def
        NetworkXAdapter_get_nodes_def)
  from again xagain Manual_add_edge_neighbors [of b m a attrs]
    Manual_add_edge_edges [of m a b attrs] Manual_add_edge_once [of m a b attrs]
    NX_add_edge_node_set [of x a b attrs] NX_add_edge_neighbors [of x a b attrs]
    NX_add_edge_edges [of x a b attrs] NX_add_edge_once [of x a b attrs]
  show ?thesis by blast
qed

text \<open>
  The segment 2-3 is added to the network of the two nodes 1 and 2 joined by an edge, and
  then once more with its endpoints swapped.
\<close>

lemma manual_example_edges: "edges manual_example = [(1, [2]), (2, [1])]"
  by code_simp

lemma nx_example_adj: "nx_adj (graph nx_example) = [(1, [(2, [])]), (2, [(1, [])])]"
  by code_simp

theorem add_edge_idempotent_witness:
  "(\<forall>n. distinct (ManualNetworkAdapter_get_neighbors manual_example n)) \<and>
   nx_ok (graph nx_example) \<and>
   (\<forall>n. distinct (adjacency (NetworkXAdapter_get_neighbors nx_example) n)) \<and>
   ManualNetworkAdapter_get_neighbors manual_example 2 = [1] \<and>
   ManualNetworkAdapter_get_neighbors (ManualNetworkAdapter_add_edge manual_example 2 3 []) 2 = [1, 3] \<and>
   ManualNetworkAdapter_get_neighbors (ManualNetworkAdapter_add_edge manual_example 2 3 []) 3 = [2] \<and>
   ManualNetworkAdapter_add_edge (ManualNetworkAdapter_add_edge manual_example 2 3 []) 3 2 [] =
     ManualNetworkAdapter_add_edge manual_example 2 3 [] \<and>
   count_list (ManualNetworkAdapter_get_neighbors (ManualNetworkAdapter_add_edge manual_example 2 3 []) 2) 3 = 1 \<and>
   NetworkXAdapter_get_neighbors nx_example 2 = Inr [1] \<and>
   NetworkXAdapter_get_neighbors nx_example 3 = Inl NetworkXError \<and>
   NetworkXAdapter_get_neighbors (NetworkXAdapter_add_edge nx_example 2 3 []) 2 = Inr [1, 3] \<and>
   NetworkXAdapter_get_neighbors (NetworkXAdapter_add_edge nx_example 2 3 []) 3 = Inr [2] \<and>
   NetworkXAdapter_get_neighbors
     (NetworkXAdapter_add_edge (NetworkXAdapter_add_edge nx_example 2 3 []) 3 2 []) 2 = Inr [1, 3] \<and>
   NetworkXAdapter_get_nodes (NetworkXAdapter_add_edge nx_example 2 3 []) = [1, 2, 3] \<and>
   NX_edges (NetworkXAdapter_add_edge nx_example 2 3 []) = insert (2, 3) (insert (3, 2) (NX_edges nx_example)) \<and>
   count_list (adjacency (NetworkXAdapter_get_neighbors (NetworkXAdapter_add_edge nx_example 2 3 [])) 2) 3 = 1"
proof -
  have dm: "\<forall>n. distinct (ManualNetworkAdapter_get_neighbors manual_example n)"
    by (simp add: ManualNetworkAdapter_get_neighbors_def manual_example_edges)
  have ok: "nx_ok (graph nx_example)" by (simp add: nx_example_def NetworkXAdapter_ok)
  have dx: "\<forall>n. distinct (adjacency (NetworkXAdapter_get_neighbors nx_example) n)"
    by (simp add: adjacency_def NetworkXAdapter_get_neighbors_def nx_neighbors_def nx_example_adj)
  have v: "ManualNetworkAdapter_get_neighbors manual_example 2 = [1]"
    "ManualNetworkAdapter_get_neighbors (ManualNetworkAdapter_add_edge manual_example 2 3 []) 2 = [1, 3]"
    "ManualNetworkAdapter_get_neighbors (ManualNetworkAdapter_add_edge manual_example 2 3 []) 3 = [2]"
    "NetworkXAdapter_get_neighbors nx_example 2 = Inr [1]"
    "NetworkXAdapter_get_neighbors nx_example 3 = Inl NetworkXError"
    "NetworkXAdapter_get_neighbors (NetworkXAdapter_add_edge nx_example 2 3 []) 2 = Inr [1, 3]"
    "NetworkXAdapter_get_neighbors (NetworkXAdapter_add_edge nx_example 2 3 []) 3 = Inr [2]"
    "NetworkXAdapter_get_nodes (NetworkXAdapter_add_edge nx_example 2 3 []) = [1, 2, 3]"
    by code_simp+
  from add_edge_idempotent [of manual_example 2 3 "[]" "[]" nx_example] dm ok dx
  show ?thesis by (simp add: v)
qed

lemma Manual_add_node_frame:
  assumes reg: "node_id \<in> set (ManualNetworkAdapter_get_nodes m)"
  shows "ManualNetworkAdapter_get_nodes (ManualNetworkAdapter_add_node m node_id attrs) =
           ManualNetworkAdapter_get_nodes m \<and>
         ManualNetworkAdapter_get_node_attributes (ManualNetworkAdapter_add_node m node_id attrs) node_id
           = attrs \<and>
         (\<forall>n. ManualNetworkAdapter_get_neighbors (ManualNetworkAdapter_add_node m node_id attrs) n =
              ManualNetworkAdapter_get_neighbors m n) \<and>
         (\<forall>n. n \<noteq> node_id \<longrightarrow>
              ManualNetworkAdapter_get_node_attributes (ManualNetworkAdapter_add_node m node_id attrs) n =
              ManualNetworkAdapter_get_node_attributes m n)"
proof -
  let ?m = "ManualNetworkAdapter_add_node m node_id attrs"
  have n: "nodes ?m = AList.update node_id attrs (nodes m)"
    by (simp add: ManualNetworkAdapter_add_node_def ensure_edges_def)
  have 1: "ManualNetworkAdapter_get_nodes ?m = ManualNetworkAdapter_get_nodes m"
    using reg by (simp add: ManualNetworkAdapter_get_nodes_def n update_keys)
  have 2: "ManualNetworkAdapter_get_node_attributes ?m node_id = attrs"
    by (simp add: ManualNetworkAdapter_get_node_attributes_def n update_conv')
  have 3: "ManualNetworkAdapter_get_neighbors ?m k = ManualNetworkAdapter_get_neighbors m k" for k
    by (auto simp: ManualNetworkAdapter_get_neighbors_def ManualNetworkAdapter_add_node_def
        ensure_edges_def update_conv' map_of_eq_None_iff split: option.splits
        dest: map_of_Some_key)
  have 4: "ManualNetworkAdapter_get_node_attributes ?m k =
      ManualNetworkAdapter_get_node_attributes m k" if "k \<noteq> node_id" for k
    using that by (simp add: ManualNetworkAdapter_get_node_attributes_def n update_conv')
  from 1 2 3 4 show ?thesis by blast
qed

lemma NX_add_node_frame:
  assumes reg: "node_id \<in> set (NetworkXAdapter_get_nodes x)"
  shows "NetworkXAdapter_get_nodes (NetworkXAdapter_add_node x node_id attrs) =
           NetworkXAdapter_get_nodes x \<and>
         (\<exists>old. NetworkXAdapter_get_node_attributes x node_id = Inr old \<and>
            NetworkXAdapter_get_node_attributes (NetworkXAdapter_add_node x node_id attrs) node_id
              = Inr (dict_update old attrs)) \<and>
         (\<forall>n. NetworkXAdapter_get_neighbors (NetworkXAdapter_add_node x node_id attrs) n =
              NetworkXAdapter_get_neighbors x n) \<and>
         (\<forall>n. n \<noteq> node_id \<longrightarrow>
              NetworkXAdapter_get_node_attributes (NetworkXAdapter_add_node x node_id attrs) n =
              NetworkXAdapter_get_node_attributes x n)"
proof -
  from reg have "node_id \<in> fst ` set (nx_node (graph x))"
    by (simp add: NetworkXAdapter_get_nodes_def nx_nodes_def)
  then obtain old where old: "map_of (nx_node (graph x)) node_id = Some old"
    by (metis map_of_eq_None_iff not_Some_eq)
  have g: "graph (NetworkXAdapter_add_node x node_id attrs) =
      (graph x)\<lparr>nx_node := AList.update node_id (dict_update old attrs) (nx_node (graph x))\<rparr>"
    using old by (simp add: NetworkXAdapter_add_node_def nx_add_node_def)
  show ?thesis
    using old reg
    by (simp add: g NetworkXAdapter_get_nodes_def nx_nodes_def update_keys
        NetworkXAdapter_get_node_attributes_def nx_nodes_getitem_def update_conv'
        NetworkXAdapter_get_neighbors_def nx_neighbors_def)
qed

lemma dict_update_lookup:
  "map_of (dict_update d other) k =
     (case map_of (rev other) k of Some v \<Rightarrow> Some v | None \<Rightarrow> map_of d k)"
  unfolding dict_update_def
  by (induction other arbitrary: d) (auto simp: update_conv' split: option.splits)

text \<open>
  Updating a bag with attributes that carry all its keys replaces it, as a dict.
\<close>

lemma dict_update_replaces:
  assumes "distinct (map fst attrs)" "fst ` set old \<subseteq> fst ` set attrs"
  shows "map_of (dict_update old attrs) = map_of attrs"
proof
  fix k
  have "map_of (rev attrs) = map_of attrs"
    using assms(1) by (subst map_of_inject_set) (simp_all add: rev_map [symmetric])
  then have r: "map_of (rev attrs) k = map_of attrs k" by simp
  show "map_of (dict_update old attrs) k = map_of attrs k"
  proof (cases "map_of attrs k")
    case None
    then have "k \<notin> fst ` set attrs" by (simp add: map_of_eq_None_iff)
    with assms(2) have "map_of old k = None" by (auto simp: map_of_eq_None_iff)
    with None r show ?thesis by (simp add: dict_update_lookup)
  next
    case (Some v)
    with r show ?thesis by (simp add: dict_update_lookup)
  qed
qed

text \<open>
  What \<^verbatim>\<open>d.update(attrs)\<close> leaves in a bag: a key that \<open>attrs\<close> does not carry keeps its old
  value, and a key that it carries takes the new one.
\<close>

lemma dict_update_merge:
  "(k \<notin> fst ` set attrs \<longrightarrow> map_of (dict_update old attrs) k = map_of old k) \<and>
   (distinct (map fst attrs) \<longrightarrow> (\<forall>v. (k, v) \<in> set attrs \<longrightarrow> map_of (dict_update old attrs) k = Some v))"
proof -
  have 1: "map_of (dict_update old attrs) k = map_of old k" if "k \<notin> fst ` set attrs"
  proof -
    from that have "map_of (rev attrs) k = None" by (simp add: map_of_eq_None_iff)
    then show ?thesis by (simp add: dict_update_lookup)
  qed
  have 2: "map_of (dict_update old attrs) k = Some v" if "distinct (map fst attrs)" "(k, v) \<in> set attrs" for v
  proof -
    from that have "distinct (map fst (rev attrs))" "(k, v) \<in> set (rev attrs)"
      by (simp_all add: rev_map [symmetric])
    then have "map_of (rev attrs) k = Some v" by (rule map_of_is_SomeI)
    then show ?thesis by (simp add: dict_update_lookup)
  qed
  from 1 2 show ?thesis by blast
qed

text \<open>
  Claim C10 says that adding a registered node again replaces its attribute bag.  The
  NetworkX adapter does not: node 1 of a two-node network has a name and a type, it is
  added again with a new type only, and its bag still holds the name.  The manual adapter,
  given the same two calls, keeps the new type alone.
\<close>

theorem add_node_again_not_replaced_counterexample:
  "1 \<in> set (NetworkXAdapter_get_nodes nx_example) \<and>
   NetworkXAdapter_get_node_attributes nx_example 1 =
     Inr [(''nombre'', AStr ''N1''), (''tipo'', AStr ''POSTE'')] \<and>
   NetworkXAdapter_get_node_attributes
     (NetworkXAdapter_add_node nx_example 1 [(''tipo'', AStr ''Subestacion'')]) 1 =
     Inr [(''nombre'', AStr ''N1''), (''tipo'', AStr ''Subestacion'')] \<and>
   NetworkXAdapter_get_node_attributes
     (NetworkXAdapter_add_node nx_example 1 [(''tipo'', AStr ''Subestacion'')]) 1 \<noteq>
     Inr [(''tipo'', AStr ''Subestacion'')] \<and>
   ManualNetworkAdapter_get_node_attributes
     (ManualNetworkAdapter_add_node
        (ManualNetworkAdapter_add_node ManualNetworkAdapter_init 1
           [(''nombre'', AStr ''N1''), (''tipo'', AStr ''POSTE'')])
        1 [(''tipo'', AStr ''Subestacion'')]) 1 = [(''tipo'', AStr ''Subestacion'')]"
  by code_simp

text \<open>
  Claim C10, amended.  \<^verbatim>\<open>add_node\<close> on a registered id changes that node's attribute bag and
  nothing else: the list of nodes, the neighbours of every node (the re-added one too) and
  the attributes of every other node stay as they were.  The manual adapter stores the new
  attributes in place of the old bag; \<^verbatim>\<open>networkx\<close> updates the old bag with them, so that the
  keys they carry take their new values and every other key keeps its old one.
\<close>

theorem add_node_again_frame:
  "(node_id \<in> set (ManualNetworkAdapter_get_nodes m) \<longrightarrow>
      ManualNetworkAdapter_get_nodes (ManualNetworkAdapter_add_node m node_id attrs) =
        ManualNetworkAdapter_get_nodes m \<and>
      ManualNetworkAdapter_get_node_attributes (ManualNetworkAdapter_add_node m node_id attrs) node_id
        = attrs \<and>
      (\<forall>n. ManualNetworkAdapter_get_neighbors (ManualNetworkAdapter_add_node m node_id attrs) n =
           ManualNetworkAdapter_get_neighbors m n) \<and>
      (\<forall>n. n \<noteq> node_id \<longrightarrow>
           ManualNetworkAdapter_get_node_attributes (ManualNetworkAdapter_add_node m node_id attrs) n =
           ManualNetworkAdapter_get_node_attributes m n)) \<and>
   (node_id \<in> set (NetworkXAdapter_get_nodes x) \<longrightarrow>
      NetworkXAdapter_get_nodes (NetworkXAdapter_add_node x node_id attrs) =
        NetworkXAdapter_get_nodes x \<and>
      (\<exists>old new. NetworkXAdapter_get_node_attributes x node_id = Inr old \<and>
         NetworkXAdapter_get_node_attributes (NetworkXAdapter_add_node x node_id attrs) node_id
           = Inr new \<and>
         new = dict_update old attrs \<and>
         (\<forall>k. k \<notin> fst ` set attrs \<longrightarrow> map_of new k = map_of old k) \<and>
         (distinct (map fst attrs) \<longrightarrow>
            (\<forall>k v. (k, v) \<in> set attrs \<longrightarrow> map_of new k = Some v))) \<and>
      (\<forall>n. NetworkXAdapter_get_neighbors (NetworkXAdapter_add_node x node_id attrs) n =
           NetworkXAdapter_get_neighbors x n) \<and>
      (\<forall>n. n \<noteq> node_id \<longrightarrow>
           NetworkXAdapter_get_node_attributes (NetworkXAdapter_add_node x node_id attrs) n =
           NetworkXAdapter_get_node_attributes x n))"
proof -
  have "\<exists>old new. NetworkXAdapter_get_node_attributes x node_id = Inr old \<and>
         NetworkXAdapter_get_node_attributes (NetworkXAdapter_add_node x node_id attrs) node_id
           = Inr new \<and>
         new = dict_update old attrs \<and>
         (\<forall>k. k \<notin> fst ` set attrs \<longrightarrow> map_of new k = map_of old k) \<and>
         (distinct (map fst attrs) \<longrightarrow>
            (\<forall>k v. (k, v) \<in> set attrs \<longrightarrow> map_of new k = Some v))"
    if "node_id \<in> set (NetworkXAdapter_get_nodes x)"
  proof -
    from NX_add_node_frame [OF that, of attrs]
    obtain old where o: "NetworkXAdapter_get_node_attributes x node_id = Inr old"
      "NetworkXAdapter_get_node_attributes (NetworkXAdapter_add_node x node_id attrs) node_id
        = Inr (dict_update old attrs)" by blast
    from dict_update_merge [of _ attrs old] o show ?thesis by blast
  qed
  with Manual_add_node_frame [of node_id m attrs] NX_add_node_frame [of node_id x attrs]
  show ?thesis by blast
qed

text \<open>
  Node 1 of a two-node network is added again with a new type.  The NetworkX adapter keeps
  the name it had.
\<close>

theorem add_node_again_frame_witness:
  "1 \<in> set (ManualNetworkAdapter_get_nodes manual_example) \<and>
   1 \<in> set (NetworkXAdapter_get_nodes nx_example) \<and>
   distinct (map fst [(''tipo'', AStr ''Subestacion'')]) \<and>
   ManualNetworkAdapter_get_nodes
     (ManualNetworkAdapter_add_node manual_example 1 [(''tipo'', AStr ''Subestacion'')]) = [1, 2] \<and>
   ManualNetworkAdapter_get_node_attributes
     (ManualNetworkAdapter_add_node manual_example 1 [(''tipo'', AStr ''Subestacion'')]) 1
     = [(''tipo'', AStr ''Subestacion'')] \<and>
   ManualNetworkAdapter_get_neighbors
     (ManualNetworkAdapter_add_node manual_example 1 [(''tipo'', AStr ''Subestacion'')]) 1 = [2] \<and>
   ManualNetworkAdapter_get_node_attributes
     (ManualNetworkAdapter_add_node manual_example 1 [(''tipo'', AStr ''Subestacion'')]) 2
     = [(''tipo'', AStr ''POSTE'')] \<and>
   NetworkXAdapter_get_nodes
     (NetworkXAdapter_add_node nx_example 1 [(''tipo'', AStr ''Subestacion'')]) = [1, 2] \<and>
   NetworkXAdapter_get_node_attributes
     (NetworkXAdapter_add_node nx_example 1 [(''tipo'', AStr ''Subestacion'')]) 1
     = Inr [(''nombre'', AStr ''N1''), (''tipo'', AStr ''Subestacion'')] \<and>
   NetworkXAdapter_get_neighbors
     (NetworkXAdapter_add_node nx_example 1 [(''tipo'', AStr ''Subestacion'')]) 1 = Inr [2] \<and>
   NetworkXAdapter_get_node_attributes
     (NetworkXAdapter_add_node nx_example 1 [(''tipo'', AStr ''Subestacion'')]) 2
     = Inr [(''tipo'', AStr ''POSTE'')]"
proof -
  have m: "1 \<in> set (ManualNetworkAdapter_get_nodes manual_example)" by code_simp
  have x: "1 \<in> set (NetworkXAdapter_get_nodes nx_example)" by code_simp
  have v: "ManualNetworkAdapter_get_nodes manual_example = [1, 2]"
    "ManualNetworkAdapter_get_neighbors manual_example 1 = [2]"
    "ManualNetworkAdapter_get_node_attributes manual_example 2 = [(''tipo'', AStr ''POSTE'')]"
    "NetworkXAdapter_get_nodes nx_example = [1, 2]"
    "NetworkXAdapter_get_neighbors nx_example 1 = Inr [2]"
    "NetworkXAdapter_get_node_attributes nx_example 2 = Inr [(''tipo'', AStr ''POSTE'')]"
    "NetworkXAdapter_get_node_attributes nx_example 1 =
       Inr [(''nombre'', AStr ''N1''), (''tipo'', AStr ''POSTE'')]"
    "dict_update [(''nombre'', AStr ''N1''), (''tipo'', AStr ''POSTE'')]
       [(''tipo'', AStr ''Subestacion'')] = [(''nombre'', AStr ''N1''), (''tipo'', AStr ''Subestacion'')]"
    by code_simp+
  from add_node_again_frame [of 1 manual_example "[(''tipo'', AStr ''Subestacion'')]" nx_example] m x
  show ?thesis by (auto simp: v)
qed

section \<open>Where the code departs from its specification\<close>

text \<open>
  On every graph the only entry of the form \<open>(n, n, k)\<close> is the self-entry of the root.
\<close>

lemma entries_inv_self:
  assumes "entries_inv E r V es" "(n, n, k) \<in> set es"
  shows "n = r \<and> k = 0"
proof (rule ccontr)
  assume "\<not> (n = r \<and> k = 0)"
  with assms have "1 \<le> k \<and> hops E r n = hops E r n + nat k"
    unfolding entries_inv_def by blast
  then show False by linarith
qed

lemma Manual_bfs_self_entries:
  "\<exists>es. ManualNetworkAdapter_bfs_traversal m start = Some (Inr es) \<and>
     (\<forall>n k. (n, n, k) \<in> set es \<longleftrightarrow> n = start \<and> k = 0)"
proof -
  from Manual_bfs_total [of m start] obtain es where
    es: "ManualNetworkAdapter_bfs_traversal m start = Some (Inr es)"
    "entries_inv (Manual_edges m) start ((Manual_edges m)\<^sup>* `` {start}) es" by blast
  from es(2) have "(start, start, 0) \<in> set es" unfolding entries_inv_def by simp
  with entries_inv_self [OF es(2)] es(1) show ?thesis by blast
qed

text \<open>
  Claim C1 says that every reachable node gets a self-entry \<open>(n, n, 0)\<close>.  The traversal
  appends one only when the dequeued item has \<^verbatim>\<open>ancestor == current\<close>, which holds for the
  start item alone (every other item is queued as \<open>(current, neighbor, 1)\<close>).  On the chain
  1-2-3-4 with root 1 it returns seven entries and none of \<open>(2, 2, 0)\<close>, \<open>(3, 3, 0)\<close>,
  \<open>(4, 4, 0)\<close>, with either adapter.
\<close>

theorem bfs_self_entry_only_for_root:
  "network_bfs_traversal
     (get_network (build_network (NetworkBuilder_init True) chain4_nodos chain4_segmentos)) 1 =
     Some (Inr [(1, 1, 0), (1, 2, 1), (2, 3, 1), (1, 3, 2), (3, 4, 1), (2, 4, 2), (1, 4, 3)]) \<and>
   network_bfs_traversal
     (get_network (build_network (NetworkBuilder_init False) chain4_nodos chain4_segmentos)) 1 =
     Some (Inr [(1, 1, 0), (1, 2, 1), (2, 3, 1), (1, 3, 2), (3, 4, 1), (2, 4, 2), (1, 4, 3)]) \<and>
   (2, 2, 0) \<notin> set [(1, 1, 0), (1, 2, 1), (2, 3, 1), (1, 3, 2), (3, 4, 1), (2, 4, 2), (1, 4, 3) :: entry]"
  by code_simp

text \<open>
  Claim C5 says that the traversal of a component starts at its node of type
  \<^verbatim>\<open>Subestacion\<close>.  \<^verbatim>\<open>main\<close> starts at the first unvisited node of \<^verbatim>\<open>get_nodes()\<close> and never
  calls \<^verbatim>\<open>find_subestacion_node\<close>: with node 1 a pole, node 2 the substation and the
  segment 1-2, the traversal starts at node 1.
\<close>

theorem main_starts_at_first_node:
  "find_subestacion_node
     (build_network (NetworkBuilder_init True)
        [example_nodo 1 ''POSTE EN H'', example_nodo 2 ''Subestacion''] [example_segmento 1 1 2])
     = Inr 2 \<and>
   main_closure [example_nodo 1 ''POSTE EN H'', example_nodo 2 ''Subestacion'']
     [example_segmento 1 1 2] = Some (Inr [(1, 1, 0), (1, 2, 1)])"
  by code_simp

lemma Manual_add_edge_nodes: "nodes (ManualNetworkAdapter_add_edge m a b attrs) = nodes m"
  by (simp add: ManualNetworkAdapter_add_edge_def edges_add_def ensure_edges_def)

text \<open>
  Claim C6 says that an endpoint \<^verbatim>\<open>add_edge\<close> creates appears in \<^verbatim>\<open>get_nodes()\<close>.  The manual
  adapter creates it in \<^verbatim>\<open>self.edges\<close> only, and \<^verbatim>\<open>get_nodes\<close> lists \<^verbatim>\<open>self.nodes\<close>: after one
  registered node 1 and the segment 1-99 it lists node 1 alone (the NetworkX adapter lists
  both).
\<close>

theorem manual_add_edge_placeholder_not_listed:
  "get_nodes (get_network (build_network (NetworkBuilder_init False)
      [example_nodo 1 ''Subestacion''] [example_segmento 1 1 99])) = [1] \<and>
   get_neighbors (get_network (build_network (NetworkBuilder_init False)
      [example_nodo 1 ''Subestacion''] [example_segmento 1 1 99])) 1 = Inr [99] \<and>
   get_nodes (get_network (build_network (NetworkBuilder_init True)
      [example_nodo 1 ''Subestacion''] [example_segmento 1 1 99])) = [1, 99]"
  by code_simp

lemma Manual_get_neighbors_absent:
  "node_id \<notin> fst ` set (edges m) \<Longrightarrow> ManualNetworkAdapter_get_neighbors m node_id = []"
  by (simp add: ManualNetworkAdapter_get_neighbors_def map_of_eq_None_iff [THEN iffD2])

lemma NX_get_neighbors_absent:
  "node_id \<notin> fst ` set (nx_adj (graph x)) \<Longrightarrow>
     NetworkXAdapter_get_neighbors x node_id = Inl NetworkXError"
  by (simp add: NetworkXAdapter_get_neighbors_def nx_neighbors_def map_of_eq_None_iff [THEN iffD2])

text \<open>
  Claim C7 says that \<^verbatim>\<open>get_neighbors\<close> of an absent id returns an empty result in both
  adapters.  The manual adapter does; the NetworkX adapter raises \<open>NetworkXError\<close>.
\<close>

theorem networkx_get_neighbors_raises:
  "NetworkXAdapter_get_neighbors (NetworkXAdapter_add_node NetworkXAdapter_init 1 []) 99 =
     Inl NetworkXError \<and>
   ManualNetworkAdapter_get_neighbors
     (ManualNetworkAdapter_add_node ManualNetworkAdapter_init 1 []) 99 = []"
  by code_simp

section \<open>Entity construction\<close>

text \<open>
  Claim C8 says that a negative length or capacity is rejected.  A row with
  \<^verbatim>\<open>longitud_m = -100.5\<close> and \<^verbatim>\<open>capacidad_amp = -5\<close> is accepted, and the \<^verbatim>\<open>Segmento\<close> carries
  both negative values.
\<close>

theorem from_csv_row_negative_counterexample:
  "Segmento_from_csv_row negative_row =
     Inr \<lparr>id_segmento = 1, id_circuito = ''C1'', nodo_inicio = 1, nodo_fin = 2,
          longitud_m = Finite (- 100.5), tipo_conductor = 1, capacidad_amp = - 5\<rparr>"
  by code_simp

lemma py_int_error: "py_int s = Inl e \<Longrightarrow> e = ValueError"
  by (auto simp: py_int_def Let_def split: prod.splits option.splits if_splits)

lemma py_float_error: "py_float s = Inl e \<Longrightarrow> e = ValueError"
  by (auto simp: py_float_def Let_def split: prod.splits option.splits if_splits)

lemma ebind_getitem:
  "map_of row k = Some s \<Longrightarrow> ebind (ebind (getitem row k) f) g = ebind (f s) g"
  "map_of row k = Some s \<Longrightarrow> ebind (getitem row k) h = h s"
  by (simp_all add: getitem_def ebind_def)

text \<open>
  Claim C8, amended.  For a row that has every column, \<^verbatim>\<open>from_csv_row\<close> raises \<open>ValueError\<close>
  exactly when \<^verbatim>\<open>int()\<close> or \<^verbatim>\<open>float()\<close> rejects the text of one of the numeric columns;
  otherwise it builds the entity from the converted values whatever their sign.
\<close>

theorem from_csv_row_numeric_fields:
  "(map_of row ''id_segmento'' = Some s1 \<and> map_of row ''id_circuito'' = Some s2 \<and>
    map_of row ''nodo_inicio'' = Some s3 \<and> map_of row ''nodo_fin'' = Some s4 \<and>
    map_of row ''longitud_m'' = Some s5 \<and> map_of row ''tipo_conductor'' = Some s6 \<and>
    map_of row ''capacidad_amp'' = Some s7 \<longrightarrow>
      (Segmento_from_csv_row row = Inl ValueError \<longleftrightarrow>
         py_int s1 = Inl ValueError \<or> py_int s3 = Inl ValueError \<or> py_int s4 = Inl ValueError \<or>
         py_float s5 = Inl ValueError \<or> py_int s6 = Inl ValueError \<or> py_int s7 = Inl ValueError) \<and>
      (\<forall>a c d e f g.
         py_int s1 = Inr a \<and> py_int s3 = Inr c \<and> py_int s4 = Inr d \<and> py_float s5 = Inr e \<and>
         py_int s6 = Inr f \<and> py_int s7 = Inr g \<longrightarrow>
         Segmento_from_csv_row row =
           Inr \<lparr>id_segmento = a, id_circuito = s2, nodo_inicio = c, nodo_fin = d,
                longitud_m = e, tipo_conductor = f, capacidad_amp = g\<rparr>)) \<and>
   (map_of nrow ''id_nodo'' = Some t1 \<and> map_of nrow ''nombre'' = Some t2 \<and>
    map_of nrow ''tipo'' = Some t3 \<and> map_of nrow ''voltaje_kv'' = Some t4 \<and>
    map_of nrow ''x'' = Some t5 \<and> map_of nrow ''y'' = Some t6 \<longrightarrow>
      (Nodo_from_csv_row nrow = Inl ValueError \<longleftrightarrow>
         py_int t1 = Inl ValueError \<or> py_float t4 = Inl ValueError \<or>
         py_float t5 = Inl ValueError \<or> py_float t6 = Inl ValueError) \<and>
      (\<forall>a d e f.
         py_int t1 = Inr a \<and> py_float t4 = Inr d \<and> py_float t5 = Inr e \<and> py_float t6 = Inr f \<longrightarrow>
         Nodo_from_csv_row nrow =
           Inr \<lparr>id_nodo = a, nombre = t2, tipo = t3, voltaje_kv = d, coord_x = e, coord_y = f\<rparr>))"
proof (intro conjI impI)
  assume k: "map_of row ''id_segmento'' = Some s1 \<and> map_of row ''id_circuito'' = Some s2 \<and>
    map_of row ''nodo_inicio'' = Some s3 \<and> map_of row ''nodo_fin'' = Some s4 \<and>
    map_of row ''longitud_m'' = Some s5 \<and> map_of row ''tipo_conductor'' = Some s6 \<and>
    map_of row ''capacidad_amp'' = Some s7"
  then have e: "Segmento_from_csv_row row =
     ebind (py_int s1) (\<lambda>a. ebind (py_int s3) (\<lambda>c. ebind (py_int s4) (\<lambda>d.
     ebind (py_float s5) (\<lambda>e. ebind (py_int s6) (\<lambda>f. ebind (py_int s7) (\<lambda>g.
       Inr \<lparr>id_segmento = a, id_circuito = s2, nodo_inicio = c, nodo_fin = d,
            longitud_m = e, tipo_conductor = f, capacidad_amp = g\<rparr>))))))"
    by (simp add: Segmento_from_csv_row_def ebind_getitem)
  show "Segmento_from_csv_row row = Inl ValueError \<longleftrightarrow>
         py_int s1 = Inl ValueError \<or> py_int s3 = Inl ValueError \<or> py_int s4 = Inl ValueError \<or>
         py_float s5 = Inl ValueError \<or> py_int s6 = Inl ValueError \<or> py_int s7 = Inl ValueError"
    unfolding e ebind_def
    by (auto split: sum.splits dest: py_int_error py_float_error)
  show "\<forall>a c d e f g.
         py_int s1 = Inr a \<and> py_int s3 = Inr c \<and> py_int s4 = Inr d \<and> py_float s5 = Inr e \<and>
         py_int s6 = Inr f \<and> py_int s7 = Inr g \<longrightarrow>
         Segmento_from_csv_row row =
           Inr \<lparr>id_segmento = a, id_circuito = s2, nodo_inicio = c, nodo_fin = d,
                longitud_m = e, tipo_conductor = f, capacidad_amp = g\<rparr>"
    unfolding e ebind_def by simp
next
  assume k: "map_of nrow ''id_nodo'' = Some t1 \<and> map_of nrow ''nombre'' = Some t2 \<and>
    map_of nrow ''tipo'' = Some t3 \<and> map_of nrow ''voltaje_kv'' = Some t4 \<and>
    map_of nrow ''x'' = Some t5 \<and> map_of nrow ''y'' = Some t6"
  then have e: "Nodo_from_csv_row nrow =
     ebind (py_int t1) (\<lambda>a. ebind (py_float t4) (\<lambda>d. ebind (py_float t5) (\<lambda>e.
     ebind (py_float t6) (\<lambda>f.
       Inr \<lparr>id_nodo = a, nombre = t2, tipo = t3, voltaje_kv = d, coord_x = e, coord_y = f\<rparr>))))"
    by (simp add: Nodo_from_csv_row_def ebind_getitem)
  show "Nodo_from_csv_row nrow = Inl ValueError \<longleftrightarrow>
         py_int t1 = Inl ValueError \<or> py_float t4 = Inl ValueError \<or>
         py_float t5 = Inl ValueError \<or> py_float t6 = Inl ValueError"
    unfolding e ebind_def
    by (auto split: sum.splits dest: py_int_error py_float_error)
  show "\<forall>a d e f.
         py_int t1 = Inr a \<and> py_float t4 = Inr d \<and> py_float t5 = Inr e \<and> py_float t6 = Inr f \<longrightarrow>
         Nodo_from_csv_row nrow =
           Inr \<lparr>id_nodo = a, nombre = t2, tipo = t3, voltaje_kv = d, coord_x = e, coord_y = f\<rparr>"
    unfolding e ebind_def by simp
qed

text \<open>A segment row and a node row, each with the text \<^verbatim>\<open>abc\<close> in a numeric column.\<close>

theorem from_csv_row_numeric_fields_witness:
  "map_of malformed_row ''id_segmento'' = Some ''1'' \<and>
   map_of malformed_row ''id_circuito'' = Some ''C1'' \<and>
   map_of malformed_row ''nodo_inicio'' = Some ''1'' \<and>
   map_of malformed_row ''nodo_fin'' = Some ''2'' \<and>
   map_of malformed_row ''longitud_m'' = Some ''100.5'' \<and>
   map_of malformed_row ''tipo_conductor'' = Some ''1'' \<and>
   map_of malformed_row ''capacidad_amp'' = Some ''abc'' \<and>
   py_int ''abc'' = Inl ValueError \<and>
   Segmento_from_csv_row malformed_row = Inl ValueError \<and>
   map_of malformed_nodo_row ''id_nodo'' = Some ''7'' \<and>
   map_of malformed_nodo_row ''nombre'' = Some ''N7'' \<and>
   map_of malformed_nodo_row ''tipo'' = Some ''Subestacion'' \<and>
   map_of malformed_nodo_row ''voltaje_kv'' = Some ''34.5'' \<and>
   map_of malformed_nodo_row ''x'' = Some ''abc'' \<and>
   map_of malformed_nodo_row ''y'' = Some ''2.0'' \<and>
   py_float ''abc'' = Inl ValueError \<and>
   Nodo_from_csv_row malformed_nodo_row = Inl ValueError"
proof -
  have k: "map_of malformed_row ''id_segmento'' = Some ''1'' \<and>
   map_of malformed_row ''id_circuito'' = Some ''C1'' \<and>
   map_of malformed_row ''nodo_inicio'' = Some ''1'' \<and>
   map_of malformed_row ''nodo_fin'' = Some ''2'' \<and>
   map_of malformed_row ''longitud_m'' = Some ''100.5'' \<and>
   map_of malformed_row ''tipo_conductor'' = Some ''1'' \<and>
   map_of malformed_row ''capacidad_amp'' = Some ''abc''"
    by (simp add: malformed_row_def)
  have n: "map_of malformed_nodo_row ''id_nodo'' = Some ''7'' \<and>
   map_of malformed_nodo_row ''nombre'' = Some ''N7'' \<and>
   map_of malformed_nodo_row ''tipo'' = Some ''Subestacion'' \<and>
   map_of malformed_nodo_row ''voltaje_kv'' = Some ''34.5'' \<and>
   map_of malformed_nodo_row ''x'' = Some ''abc'' \<and>
   map_of malformed_nodo_row ''y'' = Some ''2.0''"
    by (simp add: malformed_nodo_row_def)
  have i: "py_int ''abc'' = Inl ValueError" by code_simp
  have f: "py_float ''abc'' = Inl ValueError" by code_simp
  from from_csv_row_numeric_fields [of malformed_row "''1''" "''C1''" "''1''" "''2''" "''100.5''"
      "''1''" "''abc''" malformed_nodo_row "''7''" "''N7''" "''Subestacion''" "''34.5''" "''abc''"
      "''2.0''"] k n i f
  have "Segmento_from_csv_row malformed_row = Inl ValueError"
    "Nodo_from_csv_row malformed_nodo_row = Inl ValueError" by blast+
  with k n i f show ?thesis by blast
qed

end
